theory Spec2Isabelle
  imports Complex_Main "HOL-Library.Product_Lexorder"
begin

section \<open>Floating-point values\<close>

text \<open>
  The plotting-support module \<^verbatim>\<open>plotly_graph_common.py\<close> computes on IEEE doubles held in
  numpy arrays and pandas series. A value is modelled as a finite real, one of the two
  infinities, or NaN. Finite arithmetic is exact (no rounding, no overflow, a single zero
  that divides like \<^verbatim>\<open>+0.0\<close>); the special values follow IEEE 754.
\<close>

datatype fl = Fin real | PInf | NInf | NaN

datatype py_error = ValueError | IndexError | ZeroDivisionError

fun is_nan :: "fl \<Rightarrow> bool" where
  "is_nan NaN = True"
| "is_nan _ = False"

fun is_fin :: "fl \<Rightarrow> bool" where
  "is_fin (Fin _) = True"
| "is_fin _ = False"

fun fl_neg :: "fl \<Rightarrow> fl" where
  "fl_neg (Fin x) = Fin (- x)"
| "fl_neg PInf = NInf"
| "fl_neg NInf = PInf"
| "fl_neg NaN = NaN"

fun fl_add :: "fl \<Rightarrow> fl \<Rightarrow> fl" where
  "fl_add NaN _ = NaN"
| "fl_add _ NaN = NaN"
| "fl_add (Fin x) (Fin y) = Fin (x + y)"
| "fl_add PInf NInf = NaN"
| "fl_add NInf PInf = NaN"
| "fl_add PInf _ = PInf"
| "fl_add NInf _ = NInf"
| "fl_add _ PInf = PInf"
| "fl_add _ NInf = NInf"

definition fl_sub :: "fl \<Rightarrow> fl \<Rightarrow> fl" where
  "fl_sub a b = fl_add a (fl_neg b)"

text \<open>The sign of a product or quotient with an infinite operand.\<close>

definition signed_inf :: "bool \<Rightarrow> fl" where
  "signed_inf positive = (if positive then PInf else NInf)"

fun fl_mul :: "fl \<Rightarrow> fl \<Rightarrow> fl" where
  "fl_mul NaN _ = NaN"
| "fl_mul _ NaN = NaN"
| "fl_mul (Fin x) (Fin y) = Fin (x * y)"
| "fl_mul (Fin x) PInf = (if x = 0 then NaN else signed_inf (0 < x))"
| "fl_mul (Fin x) NInf = (if x = 0 then NaN else signed_inf (x < 0))"
| "fl_mul PInf (Fin y) = (if y = 0 then NaN else signed_inf (0 < y))"
| "fl_mul NInf (Fin y) = (if y = 0 then NaN else signed_inf (y < 0))"
| "fl_mul PInf PInf = PInf"
| "fl_mul PInf NInf = NInf"
| "fl_mul NInf PInf = NInf"
| "fl_mul NInf NInf = PInf"

fun fl_div :: "fl \<Rightarrow> fl \<Rightarrow> fl" where
  "fl_div NaN _ = NaN"
| "fl_div _ NaN = NaN"
| "fl_div (Fin x) (Fin y) =
     (if y \<noteq> 0 then Fin (x / y) else if x = 0 then NaN else signed_inf (0 < x))"
| "fl_div (Fin x) PInf = Fin 0"
| "fl_div (Fin x) NInf = Fin 0"
| "fl_div PInf (Fin y) = signed_inf (0 \<le> y)"
| "fl_div NInf (Fin y) = signed_inf (y < 0)"
| "fl_div _ _ = NaN"

text \<open>IEEE comparisons: every comparison with NaN is false.\<close>

fun fl_lt :: "fl \<Rightarrow> fl \<Rightarrow> bool" where
  "fl_lt NaN _ = False"
| "fl_lt _ NaN = False"
| "fl_lt (Fin x) (Fin y) = (x < y)"
| "fl_lt NInf NInf = False"
| "fl_lt NInf _ = True"
| "fl_lt PInf _ = False"
| "fl_lt (Fin x) PInf = True"
| "fl_lt (Fin x) NInf = False"

fun fl_eq :: "fl \<Rightarrow> fl \<Rightarrow> bool" where
  "fl_eq NaN _ = False"
| "fl_eq _ NaN = False"
| "fl_eq a b = (a = b)"

definition fl_le :: "fl \<Rightarrow> fl \<Rightarrow> bool" where
  "fl_le a b = (fl_lt a b \<or> fl_eq a b)"

text \<open>
  The order numpy sorts and searches by: the IEEE order on the other values, with NaN
  after everything else. \<open>np_key\<close> maps a value to its position in that order.
\<close>

fun np_key :: "fl \<Rightarrow> nat \<times> real" where
  "np_key NInf = (0, 0)"
| "np_key (Fin x) = (1, x)"
| "np_key PInf = (2, 0)"
| "np_key NaN = (3, 0)"

definition np_sort :: "fl list \<Rightarrow> fl list" where
  "np_sort xs = sort_key np_key xs"

definition np_less :: "fl \<Rightarrow> fl \<Rightarrow> bool" where
  "np_less a b = (np_key a < np_key b)"

section \<open>Library functions used by the module\<close>

text \<open>
  \<^verbatim>\<open>Series.dropna()\<close>: the entries that are not NaN, in order.
\<close>

definition dropna :: "fl list \<Rightarrow> fl list" where
  "dropna y = filter (\<lambda>v. \<not> is_nan v) y"

text \<open>
  Linear interpolation between two order statistics, as \<^verbatim>\<open>numpy\<close> computes it:
  \<^verbatim>\<open>a + (b - a) * t\<close>, replaced by \<^verbatim>\<open>b - (b - a) * (1 - t)\<close> where \<^verbatim>\<open>t >= 0.5\<close>.
\<close>

definition lerp :: "fl \<Rightarrow> fl \<Rightarrow> real \<Rightarrow> fl" where
  "lerp a b t =
     (let diff_b_a = fl_sub b a
      in if t \<ge> 1 / 2 then fl_sub b (fl_mul diff_b_a (Fin (1 - t)))
         else fl_add a (fl_mul diff_b_a (Fin t)))"

text \<open>
  \<^verbatim>\<open>np.percentile(a, p)\<close> with the default linear method, \<open>p\<close> in percent: the virtual
  index \<open>(n - 1) * p / 100\<close> into the sorted values, interpolated between its two
  neighbours; NaN as soon as the data holds a NaN. The module calls it on non-empty lists
  only; on the empty list numpy gives NaN.
  \<^verbatim>\<open>Series.quantile(q)\<close> of pandas is the same computation at \<open>p = 100 * q\<close>.
\<close>

definition np_percentile :: "fl list \<Rightarrow> real \<Rightarrow> fl" where
  "np_percentile a p =
     (let arr = np_sort a; n = length arr
      in if n = 0 then NaN
         else if is_nan (last arr) then NaN
         else let virtual_index = real (n - 1) * (p / 100);
                  previous_index = nat \<lfloor>virtual_index\<rfloor>;
                  next_index = min (previous_index + 1) (n - 1);
                  gamma = virtual_index - real previous_index
              in lerp (arr ! previous_index) (arr ! next_index) gamma)"

definition quantile :: "fl list \<Rightarrow> real \<Rightarrow> fl" where
  "quantile y q = np_percentile y (100 * q)"

text \<open>
  Python's builtin \<^verbatim>\<open>min\<close> and \<^verbatim>\<open>max\<close>. With two arguments the first one is kept
  unless the second is strictly smaller (larger); over a sequence the same step is folded
  from the first element. An empty sequence raises \<^verbatim>\<open>ValueError\<close>.
\<close>

definition py_min2 :: "fl \<Rightarrow> fl \<Rightarrow> fl" where
  "py_min2 a b = (if fl_lt b a then b else a)"

definition py_max2 :: "fl \<Rightarrow> fl \<Rightarrow> fl" where
  "py_max2 a b = (if fl_lt a b then b else a)"

fun py_min :: "fl list \<Rightarrow> py_error + fl" where
  "py_min [] = Inl ValueError"
| "py_min (v # vs) = Inr (foldl py_min2 v vs)"

fun py_max :: "fl list \<Rightarrow> py_error + fl" where
  "py_max [] = Inl ValueError"
| "py_max (v # vs) = Inr (foldl py_max2 v vs)"

section \<open>QuantileSummarizer: \<^verbatim>\<open>_precompute_boxplot_values\<close>\<close>

record boxplot_values =
  bv_min :: fl
  lowerfence :: fl
  q1 :: fl
  median :: fl
  q3 :: fl
  upperfence :: fl
  bv_max :: fl
  notchspan :: fl

definition zero_boxplot_values :: boxplot_values where
  "zero_boxplot_values =
     \<lparr>bv_min = Fin 0, lowerfence = Fin 0, q1 = Fin 0, median = Fin 0, q3 = Fin 0,
      upperfence = Fin 0, bv_max = Fin 0, notchspan = Fin 0\<rparr>"

definition precompute_boxplot_values :: "fl list \<Rightarrow> py_error + boxplot_values" where
  "precompute_boxplot_values y0 =
     (let y = dropna y0
      in if length y = 0 then Inr zero_boxplot_values
         else
           let q1v = quantile y (25 / 100);
               q3v = quantile y (75 / 100);
               iqr = fl_sub q3v q1v;
               upper_fence = fl_add q3v (fl_mul (Fin (3 / 2)) iqr);
               lower_fence = fl_sub q1v (fl_mul (Fin (3 / 2)) iqr);
               nspan = fl_div (fl_mul (Fin (157 / 100)) iqr) (Fin (sqrt (real (length y))))
           in case py_min y of Inl e \<Rightarrow> Inl e | Inr mn \<Rightarrow>
              (case py_max y of Inl e \<Rightarrow> Inl e | Inr mx \<Rightarrow>
                 Inr \<lparr>bv_min = mn,
                      lowerfence = py_max2 lower_fence mn,
                      q1 = q1v,
                      median = quantile y (50 / 100),
                      q3 = q3v,
                      upperfence = py_min2 upper_fence mx,
                      bv_max = mx,
                      notchspan = nspan\<rparr>))"

section \<open>Library functions of the TimeBinner and the DistributionSmoother\<close>

text \<open>
  \<^verbatim>\<open>ndarray.min()\<close> and \<^verbatim>\<open>ndarray.max()\<close>: a NaN in the array is the result; the empty
  array raises \<^verbatim>\<open>ValueError\<close>.
\<close>

definition np_minimum :: "fl \<Rightarrow> fl \<Rightarrow> fl" where
  "np_minimum a b = (if is_nan a then a else if is_nan b then b else if fl_lt b a then b else a)"

definition np_maximum :: "fl \<Rightarrow> fl \<Rightarrow> fl" where
  "np_maximum a b = (if is_nan a then a else if is_nan b then b else if fl_lt a b then b else a)"

fun np_amin :: "fl list \<Rightarrow> py_error + fl" where
  "np_amin [] = Inl ValueError"
| "np_amin (v # vs) = Inr (foldl np_minimum v vs)"

fun np_amax :: "fl list \<Rightarrow> py_error + fl" where
  "np_amax [] = Inl ValueError"
| "np_amax (v # vs) = Inr (foldl np_maximum v vs)"

text \<open>
  \<^verbatim>\<open>np.nanmin\<close> and \<^verbatim>\<open>np.nanmax\<close>: the extremum of the values that are not NaN; NaN (with
  a warning) when every value is NaN; \<^verbatim>\<open>ValueError\<close> on the empty array.
\<close>

definition np_nanmin :: "fl list \<Rightarrow> py_error + fl" where
  "np_nanmin a = (if a = [] then Inl ValueError
                  else if dropna a = [] then Inr NaN else np_amin (dropna a))"

definition np_nanmax :: "fl list \<Rightarrow> py_error + fl" where
  "np_nanmax a = (if a = [] then Inl ValueError
                  else if dropna a = [] then Inr NaN else np_amax (dropna a))"

text \<open>
  \<^verbatim>\<open>np.linspace(start, stop, num)\<close> with the default \<^verbatim>\<open>endpoint=True\<close>. A negative
  \<^verbatim>\<open>num\<close> raises \<^verbatim>\<open>ValueError\<close>. Otherwise \<^verbatim>\<open>arange(0, num)\<close> is scaled by the step
  \<^verbatim>\<open>(stop - start) / (num - 1)\<close> (by \<^verbatim>\<open>/ div\<close> and \<^verbatim>\<open>* delta\<close> when the step compares
  equal to zero, by \<^verbatim>\<open>delta\<close> alone when \<^verbatim>\<open>num <= 1\<close>), shifted by \<^verbatim>\<open>start\<close>, and the last
  entry is overwritten with \<^verbatim>\<open>stop\<close> when \<^verbatim>\<open>num > 1\<close>.
\<close>

definition linspace :: "fl \<Rightarrow> fl \<Rightarrow> int \<Rightarrow> py_error + fl list" where
  "linspace start stop num =
     (if num < 0 then Inl ValueError
      else
        let n = nat num;
            dv = num - 1;
            delta = fl_sub stop start;
            y = map (\<lambda>i. Fin (real i)) [0..<n];
            y1 = (if dv > 0 then
                    let step = fl_div delta (Fin (real_of_int dv))
                    in if fl_eq step (Fin 0)
                       then map (\<lambda>v. fl_mul (fl_div v (Fin (real_of_int dv))) delta) y
                       else map (\<lambda>v. fl_mul v step) y
                  else map (\<lambda>v. fl_mul v delta) y);
            y2 = map (\<lambda>v. fl_add v start) y1
        in Inr (if num > 1 then y2[n - 1 := stop] else y2))"

text \<open>
  \<^verbatim>\<open>np.searchsorted\<close>. numpy bisects; on an array sorted in numpy's order (the only arrays
  this module searches) the index found is the number of entries below the key
  (\<^verbatim>\<open>side='left'\<close>) or not above it (\<^verbatim>\<open>side='right'\<close>).
\<close>

definition searchsorted_left :: "fl list \<Rightarrow> fl \<Rightarrow> nat" where
  "searchsorted_left arr v = length (filter (\<lambda>a. np_less a v) arr)"

definition searchsorted_right :: "fl list \<Rightarrow> fl \<Rightarrow> nat" where
  "searchsorted_right arr v = length (filter (\<lambda>a. \<not> np_less v a) arr)"

text \<open>
  The monotonicity test of \<^verbatim>\<open>np.digitize\<close>: 1 for non-decreasing bins (and for bins that
  are all equal, or empty), -1 for non-increasing bins, 0 otherwise. It compares with the
  IEEE operators, so a NaN never breaks a run.
\<close>

fun skip_repeated :: "fl \<Rightarrow> fl list \<Rightarrow> fl list" where
  "skip_repeated lst [] = []"
| "skip_repeated lst (a # as) = (if fl_eq a lst then skip_repeated lst as else a # as)"

fun never_falls :: "fl \<Rightarrow> fl list \<Rightarrow> bool" where
  "never_falls lst [] = True"
| "never_falls lst (nxt # as) = (if fl_lt nxt lst then False else never_falls nxt as)"

fun never_rises :: "fl \<Rightarrow> fl list \<Rightarrow> bool" where
  "never_rises lst [] = True"
| "never_rises lst (nxt # as) = (if fl_lt lst nxt then False else never_rises nxt as)"

definition monotonicity :: "fl list \<Rightarrow> int" where
  "monotonicity bins =
     (case bins of
        [] \<Rightarrow> 1
      | a0 # as \<Rightarrow>
          (case skip_repeated a0 as of
             [] \<Rightarrow> 1
           | nxt # rest \<Rightarrow>
               if fl_lt a0 nxt then (if never_falls nxt rest then 1 else 0)
               else (if never_rises nxt rest then - 1 else 0)))"

text \<open>
  \<^verbatim>\<open>np.digitize(x, bins, right=True)\<close>: for increasing bins the index \<open>i\<close> with
  \<^verbatim>\<open>bins[i-1] < x <= bins[i]\<close>; decreasing bins are searched reversed and the result
  inverted; bins that are neither raise \<^verbatim>\<open>ValueError\<close>.
\<close>

definition digitize_right :: "fl list \<Rightarrow> fl list \<Rightarrow> py_error + nat list" where
  "digitize_right x bins =
     (let mono = monotonicity bins
      in if mono = 0 then Inl ValueError
         else if mono = - 1
         then Inr (map (\<lambda>v. length bins - searchsorted_left (rev bins) v) x)
         else Inr (map (searchsorted_left bins) x))"

text \<open>
  \<^verbatim>\<open>gaussian_filter1d(input, sigma)\<close> of scipy with its defaults (\<^verbatim>\<open>order=0\<close>,
  \<^verbatim>\<open>mode='reflect'\<close>, \<^verbatim>\<open>truncate=4.0\<close>). The kernel radius is \<^verbatim>\<open>int(4 * sigma + 0.5)\<close>;
  the weights are \<^verbatim>\<open>exp(-0.5 / sigma^2 * k^2)\<close> for \<open>k\<close> from \<open>-radius\<close> to \<open>radius\<close>,
  divided by their sum. The input is extended by reflection about its two ends, and each
  output is the centre term plus the weighted sums of the pairs at equal distance, as the
  library computes a symmetric kernel. \<^verbatim>\<open>sigma = 0\<close> divides by zero; a negative radius
  is refused.
\<close>

definition py_int :: "real \<Rightarrow> int" where
  "py_int r = (if 0 \<le> r then \<lfloor>r\<rfloor> else \<lceil>r\<rceil>)"

definition gaussian_kernel1d :: "real \<Rightarrow> nat \<Rightarrow> real list" where
  "gaussian_kernel1d sigma radius =
     (let sigma2 = sigma * sigma;
          x = map (\<lambda>i. real_of_int (int i - int radius)) [0..<2 * radius + 1];
          phi_x = map (\<lambda>k. exp (- (1 / 2) / sigma2 * k\<^sup>2)) x
      in map (\<lambda>p. p / sum_list phi_x) phi_x)"

definition reflect_index :: "nat \<Rightarrow> int \<Rightarrow> nat" where
  "reflect_index n k = (let m = nat (k mod (2 * int n)) in if m < n then m else 2 * n - 1 - m)"

definition correlate1d :: "fl list \<Rightarrow> real list \<Rightarrow> nat \<Rightarrow> fl list" where
  "correlate1d input weights size1 =
     (let n = length input;
          ext = (\<lambda>k. input ! reflect_index n k)
      in map (\<lambda>l. foldl (\<lambda>tmp j. fl_add tmp
                             (fl_mul (fl_add (ext (int l - int j)) (ext (int l + int j)))
                                     (Fin (weights ! (size1 - j)))))
                        (fl_mul (ext (int l)) (Fin (weights ! size1)))
                        (rev [1..<size1 + 1]))
             [0..<n])"

definition gaussian_filter1d :: "fl list \<Rightarrow> real \<Rightarrow> py_error + fl list" where
  "gaussian_filter1d input sigma =
     (let lw = py_int (4 * sigma + 1 / 2)
      in if lw < 0 then Inl ValueError
         else if sigma = 0 then Inl ZeroDivisionError
         else Inr (correlate1d input (rev (gaussian_kernel1d sigma (nat lw))) (nat lw)))"

text \<open>
  \<^verbatim>\<open>np.histogram(a, bins, density=True)\<close> with an array of bin edges: edges that decrease
  somewhere raise \<^verbatim>\<open>ValueError\<close>; the count of a bin is the difference of the cumulative
  counts of the sorted data at its two edges (left-closed, the last bin closed on both
  sides); the density is \<^verbatim>\<open>n / diff(bins) / n.sum()\<close>.
\<close>

definition np_diff_fl :: "fl list \<Rightarrow> fl list" where
  "np_diff_fl xs = map (\<lambda>(a, b). fl_sub b a) (zip xs (tl xs))"

definition np_diff_int :: "int list \<Rightarrow> int list" where
  "np_diff_int xs = map (\<lambda>(a, b). b - a) (zip xs (tl xs))"

definition search_sorted_inclusive :: "fl list \<Rightarrow> fl list \<Rightarrow> int list" where
  "search_sorted_inclusive a v =
     map (\<lambda>e. int (searchsorted_left a e)) (butlast v)
     @ map (\<lambda>e. int (searchsorted_right a e)) (drop (length v - 1) v)"

definition np_histogram_density :: "fl list \<Rightarrow> fl list \<Rightarrow> py_error + (fl list \<times> fl list)" where
  "np_histogram_density a bin_edges =
     (if list_ex (\<lambda>(lo, hi). fl_lt hi lo) (zip bin_edges (tl bin_edges)) then Inl ValueError
      else
        let sa = np_sort a;
            cum_n = search_sorted_inclusive sa bin_edges;
            n = np_diff_int cum_n;
            db = np_diff_fl bin_edges;
            total = sum_list n
        in Inr (map (\<lambda>(c, w). fl_div (fl_div (Fin (real_of_int c)) w) (Fin (real_of_int total)))
                    (zip n db),
                bin_edges))"

section \<open>TimeBinner: \<^verbatim>\<open>_over_time_graph\<close>\<close>

text \<open>
  \<^verbatim>\<open>bin_dict\<close> is a \<^verbatim>\<open>defaultdict(list)\<close> keyed by the bin edge value. It is kept as an
  association list in insertion order; keys match by float equality, so a NaN key never
  matches.
\<close>

type_synonym bin_dict = "(fl \<times> fl list) list"

fun dict_lookup :: "bin_dict \<Rightarrow> fl \<Rightarrow> fl list option" where
  "dict_lookup [] b = None"
| "dict_lookup ((k, vs) # rest) b = (if fl_eq k b then Some vs else dict_lookup rest b)"

fun dict_append :: "bin_dict \<Rightarrow> fl \<Rightarrow> fl \<Rightarrow> bin_dict" where
  "dict_append [] b val = [(b, [val])]"
| "dict_append ((k, vs) # rest) b val =
     (if fl_eq k b then (k, vs @ [val]) # rest else (k, vs) # dict_append rest b val)"

text \<open>
  The loop \<^verbatim>\<open>for bin_idx, val in zip(t, data_series)\<close>: the edge \<^verbatim>\<open>x[bin_idx]\<close> is looked
  up, which raises \<^verbatim>\<open>IndexError\<close> past the end of \<open>x\<close>, and the value is appended to that
  edge's list.
\<close>

fun fill_bins :: "fl list \<Rightarrow> (nat \<times> fl) list \<Rightarrow> bin_dict \<Rightarrow> py_error + bin_dict" where
  "fill_bins x [] d = Inr d"
| "fill_bins x ((bin_idx, val) # rest) d =
     (if bin_idx < length x then fill_bins x rest (dict_append d (x ! bin_idx) val)
      else Inl IndexError)"

definition percentiles :: "real list" where
  "percentiles = [0, 25, 50, 75, 100]"

text \<open>
  The loop \<^verbatim>\<open>for b in x\<close>: one value is appended to each of the five rows, the
  percentile of the edge's list when the edge is a key of \<^verbatim>\<open>bin_dict\<close>, NaN otherwise.
\<close>

definition band_step :: "bin_dict \<Rightarrow> fl list list \<Rightarrow> fl \<Rightarrow> fl list list" where
  "band_step d y b =
     (case dict_lookup d b of
        Some vs \<Rightarrow> map (\<lambda>(row, v). row @ [np_percentile vs v]) (zip y percentiles)
      | None \<Rightarrow> map (\<lambda>row. row @ [NaN]) y)"

definition band_rows :: "fl list \<Rightarrow> bin_dict \<Rightarrow> fl list list" where
  "band_rows x d = foldl (band_step d) (replicate (length percentiles) []) x"

fun smooth_rows :: "fl list list \<Rightarrow> real \<Rightarrow> py_error + fl list list" where
  "smooth_rows [] sigma = Inr []"
| "smooth_rows (v # rest) sigma =
     (case gaussian_filter1d v sigma of
        Inl e \<Rightarrow> Inl e
      | Inr v' \<Rightarrow> (case smooth_rows rest sigma of Inl e \<Rightarrow> Inl e | Inr rest' \<Rightarrow> Inr (v' # rest')))"

text \<open>
  The numeric part of \<^verbatim>\<open>_over_time_graph\<close>, in three stages: the bin edges \<open>x\<close>, the bin
  index of every observation and the filled \<^verbatim>\<open>bin_dict\<close>; the five percentile rows before
  smoothing; the smoothed rows. The figure built from \<open>x\<close> and the rows is not modelled.
\<close>

definition over_time_bins ::
  "fl list \<Rightarrow> fl list \<Rightarrow> int \<Rightarrow> py_error + (fl list \<times> nat list \<times> bin_dict)" where
  "over_time_bins data_series time_series time_bins =
     (let t = map (\<lambda>s. fl_div s (Fin 3600)) time_series
      in case np_amin t of Inl e \<Rightarrow> Inl e | Inr tmin \<Rightarrow>
         (case np_amax t of Inl e \<Rightarrow> Inl e | Inr tmax \<Rightarrow>
         (case linspace tmin tmax time_bins of Inl e \<Rightarrow> Inl e | Inr x \<Rightarrow>
         (case digitize_right t x of Inl e \<Rightarrow> Inl e | Inr idx \<Rightarrow>
         (case fill_bins x (zip idx data_series) [] of Inl e \<Rightarrow> Inl e | Inr d \<Rightarrow>
            Inr (x, idx, d))))))"

definition over_time_percentiles ::
  "fl list \<Rightarrow> fl list \<Rightarrow> int \<Rightarrow> py_error + (fl list \<times> fl list list)" where
  "over_time_percentiles data_series time_series time_bins =
     (case over_time_bins data_series time_series time_bins of
        Inl e \<Rightarrow> Inl e
      | Inr (x, idx, d) \<Rightarrow> Inr (x, band_rows x d))"

definition over_time_graph ::
  "fl list \<Rightarrow> fl list \<Rightarrow> int \<Rightarrow> real \<Rightarrow> py_error + (fl list \<times> fl list list)" where
  "over_time_graph data_series time_series time_bins sigma =
     (case over_time_percentiles data_series time_series time_bins of
        Inl e \<Rightarrow> Inl e
      | Inr (x, y) \<Rightarrow> (case smooth_rows y sigma of Inl e \<Rightarrow> Inl e | Inr y' \<Rightarrow> Inr (x, y')))"

section \<open>DistributionSmoother: \<^verbatim>\<open>_smooth_data\<close>\<close>

definition smooth_data ::
  "int \<Rightarrow> real \<Rightarrow> fl list \<Rightarrow> fl option \<Rightarrow> fl option \<Rightarrow> py_error + (fl list \<times> fl list)" where
  "smooth_data npoints sigma data min_arg max_arg =
     (case (case min_arg of None \<Rightarrow> np_nanmin data | Some m \<Rightarrow> Inr m) of
        Inl e \<Rightarrow> Inl e
      | Inr mn \<Rightarrow>
     (case (case max_arg of None \<Rightarrow> np_nanmax data | Some m \<Rightarrow> Inr m) of
        Inl e \<Rightarrow> Inl e
      | Inr mx \<Rightarrow>
     (case linspace mn mx npoints of Inl e \<Rightarrow> Inl e | Inr bins \<Rightarrow>
     (case np_histogram_density data bins of Inl e \<Rightarrow> Inl e | Inr (count_y, count_x) \<Rightarrow>
     (case gaussian_filter1d (map (\<lambda>v. fl_mul v (Fin (real (length data)))) count_y) sigma of
        Inl e \<Rightarrow> Inl e
      | Inr count_y' \<Rightarrow> Inr (drop 1 count_x, count_y'))))))"

section \<open>Resampler: \<^verbatim>\<open>_interpolate\<close>\<close>

text \<open>
  \<^verbatim>\<open>RandomState.randint(0, high, size)\<close>. The generator (a Mersenne Twister seeded with
  \<^verbatim>\<open>random_state=1\<close>) is not modelled: \<open>rng high sz\<close> stands for the indices it
  draws, a function because the seed is fixed. A negative size raises \<^verbatim>\<open>ValueError\<close>, a
  size of zero gives the empty array, and drawing from an empty range raises
  \<^verbatim>\<open>ValueError\<close>.
\<close>

definition randint :: "(nat \<Rightarrow> nat \<Rightarrow> nat list) \<Rightarrow> int \<Rightarrow> int \<Rightarrow> py_error + nat list" where
  "randint rng high sz =
     (if sz < 0 then Inl ValueError
      else if sz = 0 then Inr []
      else if high \<le> 0 then Inl ValueError
      else Inr (rng (nat high) (nat sz)))"

text \<open>Indexing with an array of positions; a position past the end raises \<^verbatim>\<open>IndexError\<close>.\<close>

definition safe_indexing :: "fl list \<Rightarrow> nat list \<Rightarrow> py_error + fl list" where
  "safe_indexing a indices =
     (if list_all (\<lambda>i. i < length a) indices then Inr (map (\<lambda>i. a ! i) indices)
      else Inl IndexError)"

text \<open>
  \<^verbatim>\<open>sklearn.utils.resample(x, n_samples=npoints, random_state=1)\<close> with the default
  \<^verbatim>\<open>replace=True\<close>: \<^verbatim>\<open>npoints\<close> indices drawn from \<open>[0, len(x))\<close>, and \<open>x\<close> taken there.
\<close>

definition resample :: "(nat \<Rightarrow> nat \<Rightarrow> nat list) \<Rightarrow> fl list \<Rightarrow> int \<Rightarrow> py_error + fl list" where
  "resample rng x n_samples =
     (case randint rng (int (length x)) n_samples of
        Inl e \<Rightarrow> Inl e
      | Inr indices \<Rightarrow> safe_indexing x indices)"

text \<open>
  \<^verbatim>\<open>_interpolate(x, npoints, y, interp_type, axis)\<close>. Without \<open>y\<close> the result is the sorted
  resample of \<open>x\<close>. With \<open>y\<close> it is the pair of \<^verbatim>\<open>npoints\<close> equally spaced points over
  the extent of \<open>x\<close> and the interpolating function at these points; scipy's
  \<^verbatim>\<open>interp1d(x, y, kind=interp_type, axis=axis)\<close> is the parameter \<open>interp1d\<close>, which
  either raises or gives a function that itself raises or gives values.
\<close>

datatype interpolated = Resampled "fl list" | Paired "fl list" "fl list"

definition interpolate ::
  "(nat \<Rightarrow> nat \<Rightarrow> nat list) \<Rightarrow> (fl list \<Rightarrow> fl list \<Rightarrow> py_error + (fl list \<Rightarrow> py_error + fl list))
     \<Rightarrow> fl list \<Rightarrow> int \<Rightarrow> fl list option \<Rightarrow> py_error + interpolated" where
  "interpolate rng interp1d x npoints y =
     (case y of
        None \<Rightarrow>
          (case resample rng x npoints of Inl e \<Rightarrow> Inl e | Inr r \<Rightarrow> Inr (Resampled (np_sort r)))
      | Some y' \<Rightarrow>
          (case interp1d x y' of Inl e \<Rightarrow> Inl e | Inr f \<Rightarrow>
          (case py_min x of Inl e \<Rightarrow> Inl e | Inr mn \<Rightarrow>
          (case py_max x of Inl e \<Rightarrow> Inl e | Inr mx \<Rightarrow>
          (case linspace mn mx npoints of Inl e \<Rightarrow> Inl e | Inr x_int \<Rightarrow>
          (case f x_int of Inl e \<Rightarrow> Inl e | Inr y_int \<Rightarrow> Inr (Paired x_int y_int)))))))"

text \<open>
  An instance of the parameter: \<^verbatim>\<open>interp1d\<close> with \<^verbatim>\<open>kind='nearest'\<close>, the kind the two
  callers pass. The points are sorted by \<open>x\<close>; a new point takes the \<open>y\<close> of the position
  found by searching the midpoints of neighbouring \<open>x\<close> (clipped to the last position),
  and a new point outside the extent of \<open>x\<close> raises \<^verbatim>\<open>ValueError\<close>. Vectors of unequal
  length raise \<^verbatim>\<open>ValueError\<close>; so do, here, vectors with fewer than two entries, on
  which the behaviour of scipy depends on its version.
\<close>

definition interp1d_nearest ::
  "fl list \<Rightarrow> fl list \<Rightarrow> py_error + (fl list \<Rightarrow> py_error + fl list)" where
  "interp1d_nearest x y =
     (if length x \<noteq> length y \<or> length x < 2 then Inl ValueError
      else
        let pts = sort_key (\<lambda>p. np_key (fst p)) (zip x y);
            xs = map fst pts;
            ys = map snd pts;
            halves = map (\<lambda>v. fl_div v (Fin 2)) xs;
            x_bds = map (\<lambda>(a, b). fl_add a b) (zip (tl halves) (butlast halves))
        in Inr (\<lambda>x_new.
             if list_ex (\<lambda>v. fl_lt v (hd xs) \<or> fl_lt (last xs) v) x_new then Inl ValueError
             else Inr (map (\<lambda>v. ys ! min (searchsorted_left x_bds v) (length xs - 1)) x_new)))"

section \<open>Auxiliary definitions for the proofs\<close>

text \<open>
  The value of the linear quantile method on a sorted list of reals, at the virtual
  index \<open>h\<close>.
\<close>

definition lin_interp :: "real list \<Rightarrow> real \<Rightarrow> real" where
  "lin_interp s h =
     (let lo = nat \<lfloor>h\<rfloor>; hi = min (lo + 1) (length s - 1)
      in s ! lo + (s ! hi - s ! lo) * (h - real lo))"

text \<open>
  The list of the observations grouped under the edge value \<open>b\<close>: the values whose bin
  index points at an edge equal to \<open>b\<close>, in the order of the observations.
\<close>

definition obs_of :: "fl list \<Rightarrow> (nat \<times> fl) list \<Rightarrow> fl \<Rightarrow> fl list" where
  "obs_of x pairs b = map snd (filter (\<lambda>(k, v). fl_eq (x ! k) b) pairs)"

text \<open>What a key of \<^verbatim>\<open>bin_dict\<close> holds after more observations were appended.\<close>

definition merge_obs :: "fl list option \<Rightarrow> fl list \<Rightarrow> fl list option" where
  "merge_obs old new =
     (case old of None \<Rightarrow> (if new = [] then None else Some new) | Some vs \<Rightarrow> Some (vs @ new))"

text \<open>The entry of one percentile row at the edge \<open>b\<close>.\<close>

definition band_value :: "bin_dict \<Rightarrow> real \<Rightarrow> fl \<Rightarrow> fl" where
  "band_value d p b = (case dict_lookup d b of Some vs \<Rightarrow> np_percentile vs p | None \<Rightarrow> NaN)"

text \<open>
  On finite times the stages of the TimeBinner have closed forms over the reals: the
  times in hours, the \<open>i\<close>-th of \<open>n\<close> equally spaced edges from \<open>a\<close> to \<open>b\<close>, the edges
  over the extent of the times, and the number of edges below a time.
\<close>

definition hours :: "real list \<Rightarrow> real list" where
  "hours Ts = map (\<lambda>s. s / 3600) Ts"

definition lin_edge :: "real \<Rightarrow> real \<Rightarrow> nat \<Rightarrow> nat \<Rightarrow> real" where
  "lin_edge a b n i = a + real i * (b - a) / real (n - 1)"

definition edges_of :: "real list \<Rightarrow> nat \<Rightarrow> real list" where
  "edges_of hs n = map (lin_edge (Min (set hs)) (Max (set hs)) n) [0..<n]"

definition bin_index :: "real list \<Rightarrow> real \<Rightarrow> nat" where
  "bin_index es v = length (takeWhile (\<lambda>e. e < v) es)"

text \<open>The x-axis of a result of \<^verbatim>\<open>_over_time_graph\<close>, when there is one.\<close>

definition xaxis_of :: "py_error + (fl list \<times> fl list list) \<Rightarrow> fl list option" where
  "xaxis_of r = (case r of Inl e \<Rightarrow> None | Inr (x, y) \<Rightarrow> Some x)"

text \<open>
  Closed forms for the nearest-neighbour interpolation on finite points: the points sorted
  by \<open>x\<close>, the midpoints of neighbouring sorted \<open>x\<close>, and the position the search of the
  midpoints gives for a new point.
\<close>

definition sorted_points :: "real list \<Rightarrow> fl list \<Rightarrow> (real \<times> fl) list" where
  "sorted_points rs Y = sort_key fst (zip rs Y)"

definition mid_points :: "real list \<Rightarrow> real list" where
  "mid_points sx =
     map (\<lambda>(a, b). a + b) (zip (tl (map (\<lambda>r. r / 2) sx)) (butlast (map (\<lambda>r. r / 2) sx)))"

definition nearest_pos :: "real list \<Rightarrow> real \<Rightarrow> nat" where
  "nearest_pos sx g = length (takeWhile (\<lambda>m. m < g) (mid_points sx))"

section \<open>Properties of the library functions\<close>

lemma insort_key_Fin: "insort_key np_key (Fin x) (map Fin ys) = map Fin (insort x ys)"
  by (induction ys) auto

lemma np_sort_Fin: "np_sort (map Fin rs) = map Fin (sort rs)"
  unfolding np_sort_def by (induction rs) (auto simp: insort_key_Fin)

lemma lerp_Fin: "lerp (Fin a) (Fin b) t = Fin (a + (b - a) * t)"
  by (simp add: lerp_def fl_sub_def Let_def algebra_simps)

lemma np_percentile_Fin:
  assumes "rs \<noteq> []" "0 \<le> p" "p \<le> 100"
  shows "np_percentile (map Fin rs) p = Fin (lin_interp (sort rs) (real (length rs - 1) * (p / 100)))"
proof -
  define s where "s = sort rs"
  define h where "h = real (length rs - 1) * (p / 100)"
  have n: "length s = length rs" by (simp add: s_def)
  have ne: "s \<noteq> []" using assms(1) n by (metis length_0_conv)
  have l: "last (map Fin s) = Fin (last s)" using ne by (simp add: last_map)
  have h0: "0 \<le> h" using assms(2) by (simp add: h_def)
  have "p / 100 \<le> 1" using assms(3) by simp
  then have "h \<le> real (length rs - 1) * 1" unfolding h_def
    by (intro mult_left_mono) simp_all
  then have h1: "h \<le> real (length rs - 1)" by simp
  then have "\<lfloor>h\<rfloor> \<le> int (length rs - 1)" by (simp add: floor_le_iff)
  then have lo: "nat \<lfloor>h\<rfloor> < length s" using assms(1) n by (cases rs) auto
  have hi: "min (nat \<lfloor>h\<rfloor> + 1) (length s - 1) < length s" using ne by (cases s) auto
  have a: "map Fin s ! nat \<lfloor>h\<rfloor> = Fin (s ! nat \<lfloor>h\<rfloor>)" using lo by simp
  have b: "map Fin s ! min (nat \<lfloor>h\<rfloor> + 1) (length s - 1)
           = Fin (s ! min (nat \<lfloor>h\<rfloor> + 1) (length s - 1))" using hi by simp
  have "np_percentile (map Fin rs) p =
        lerp (map Fin s ! nat \<lfloor>h\<rfloor>) (map Fin s ! min (nat \<lfloor>h\<rfloor> + 1) (length s - 1))
          (h - real (nat \<lfloor>h\<rfloor>))"
    unfolding np_percentile_def np_sort_Fin Let_def s_def[symmetric] h_def[symmetric]
    using ne l n assms(1) by (simp del: of_nat_diff add: h_def)
  also have "\<dots> = Fin (lin_interp s h)"
    unfolding a b lerp_Fin lin_interp_def Let_def by simp
  finally show ?thesis unfolding s_def h_def .
qed

lemma lin_interp_bounds:
  assumes "sorted s" "0 \<le> h" "h \<le> real (length s - 1)" "s \<noteq> []"
  shows "s ! nat \<lfloor>h\<rfloor> \<le> lin_interp s h"
    and "lin_interp s h \<le> s ! min (nat \<lfloor>h\<rfloor> + 1) (length s - 1)"
proof -
  define lo where "lo = nat \<lfloor>h\<rfloor>"
  define hi where "hi = min (lo + 1) (length s - 1)"
  have "\<lfloor>h\<rfloor> \<le> int (length s - 1)" using assms(3) by (simp add: floor_le_iff)
  then have lo_lt: "lo < length s" using assms(4) by (cases s) (auto simp: lo_def)
  have hi_lt: "hi < length s" using assms(4) by (cases s) (auto simp: hi_def)
  have lohi: "lo \<le> hi" using lo_lt by (auto simp: hi_def)
  have d: "s ! lo \<le> s ! hi" using assms(1) lohi hi_lt by (simp add: sorted_nth_mono)
  have g0: "0 \<le> h - real lo" using assms(2) by (simp add: lo_def)
  have g1: "h - real lo \<le> 1" using assms(2) unfolding lo_def by linarith
  have e: "lin_interp s h = s ! lo + (s ! hi - s ! lo) * (h - real lo)"
    by (simp add: lin_interp_def Let_def lo_def hi_def)
  have m0: "0 \<le> (s ! hi - s ! lo) * (h - real lo)" using d g0 by simp
  have "(s ! hi - s ! lo) * (h - real lo) \<le> (s ! hi - s ! lo) * 1"
    using d g1 by (intro mult_left_mono) simp_all
  then have m1: "(s ! hi - s ! lo) * (h - real lo) \<le> s ! hi - s ! lo" by simp
  show "s ! nat \<lfloor>h\<rfloor> \<le> lin_interp s h" using m0 e by (simp add: lo_def)
  show "lin_interp s h \<le> s ! min (nat \<lfloor>h\<rfloor> + 1) (length s - 1)"
    using m1 e by (simp add: lo_def hi_def)
qed

lemma lin_interp_mono:
  assumes "sorted s" "0 \<le> h" "h \<le> h'" "h' \<le> real (length s - 1)" "s \<noteq> []"
  shows "lin_interp s h \<le> lin_interp s h'"
proof (cases "\<lfloor>h\<rfloor> = \<lfloor>h'\<rfloor>")
  case True
  define lo where "lo = nat \<lfloor>h\<rfloor>"
  define hi where "hi = min (lo + 1) (length s - 1)"
  have hi_lt: "hi < length s" using assms(5) by (cases s) (auto simp: hi_def)
  have "\<lfloor>h\<rfloor> \<le> int (length s - 1)" using assms(3,4) by (simp add: floor_le_iff)
  then have lo_lt: "lo < length s" using assms(5) by (cases s) (auto simp: lo_def)
  have lohi: "lo \<le> hi" using lo_lt by (auto simp: hi_def)
  have d: "0 \<le> s ! hi - s ! lo" using assms(1) lohi hi_lt by (simp add: sorted_nth_mono)
  have "(s ! hi - s ! lo) * (h - real lo) \<le> (s ! hi - s ! lo) * (h' - real lo)"
    using d assms(3) by (intro mult_left_mono) simp_all
  then show ?thesis using True by (simp add: lin_interp_def Let_def lo_def hi_def)
next
  case False
  have fl: "\<lfloor>h\<rfloor> \<le> \<lfloor>h'\<rfloor>" using assms(3) by (rule floor_mono)
  with False have lt: "\<lfloor>h\<rfloor> < \<lfloor>h'\<rfloor>" by simp
  have h0: "0 \<le> \<lfloor>h\<rfloor>" using assms(2) by simp
  have "\<lfloor>h'\<rfloor> \<le> int (length s - 1)" using assms(4) by (simp add: floor_le_iff)
  then have lo'_lt: "nat \<lfloor>h'\<rfloor> < length s" using assms(5) by (cases s) auto
  have "nat \<lfloor>h\<rfloor> + 1 \<le> nat \<lfloor>h'\<rfloor>" using lt h0 by linarith
  then have le1: "min (nat \<lfloor>h\<rfloor> + 1) (length s - 1) \<le> nat \<lfloor>h'\<rfloor>" by simp
  have a: "lin_interp s h \<le> s ! min (nat \<lfloor>h\<rfloor> + 1) (length s - 1)"
    using assms by (intro lin_interp_bounds(2)) simp_all
  have b: "s ! min (nat \<lfloor>h\<rfloor> + 1) (length s - 1) \<le> s ! nat \<lfloor>h'\<rfloor>"
    using assms(1) le1 lo'_lt by (simp add: sorted_nth_mono)
  have c: "s ! nat \<lfloor>h'\<rfloor> \<le> lin_interp s h'"
    using assms by (intro lin_interp_bounds(1)) simp_all
  from a b c show ?thesis by linarith
qed

lemma fl_le_Fin: "fl_le (Fin a) (Fin b) = (a \<le> b)"
  by (auto simp: fl_le_def)

lemma py_min2_Fin: "py_min2 (Fin a) (Fin b) = Fin (min a b)"
  by (simp add: py_min2_def min_def)

lemma py_max2_Fin: "py_max2 (Fin a) (Fin b) = Fin (max a b)"
  by (simp add: py_max2_def max_def)

lemma foldl_py_min2_Fin: "foldl py_min2 (Fin a) (map Fin rs) = Fin (Min (set (a # rs)))"
proof (induction rs arbitrary: a)
  case Nil
  show ?case by simp
next
  case (Cons r rs)
  have "Min (insert (min a r) (set rs)) = Min (insert a (insert r (set rs)))"
    by (cases "set rs = {}") (simp_all add: min.assoc)
  then show ?case using Cons[of "min a r"] by (simp add: py_min2_Fin)
qed

lemma foldl_py_max2_Fin: "foldl py_max2 (Fin a) (map Fin rs) = Fin (Max (set (a # rs)))"
proof (induction rs arbitrary: a)
  case Nil
  show ?case by simp
next
  case (Cons r rs)
  have "Max (insert (max a r) (set rs)) = Max (insert a (insert r (set rs)))"
    by (cases "set rs = {}") (simp_all add: max.assoc)
  then show ?case using Cons[of "max a r"] by (simp add: py_max2_Fin)
qed

lemma py_min_Fin: "rs \<noteq> [] \<Longrightarrow> py_min (map Fin rs) = Inr (Fin (Min (set rs)))"
  by (cases rs) (simp_all add: foldl_py_min2_Fin del: set_simps)

lemma py_max_Fin: "rs \<noteq> [] \<Longrightarrow> py_max (map Fin rs) = Inr (Fin (Max (set rs)))"
  by (cases rs) (simp_all add: foldl_py_max2_Fin del: set_simps)

lemma dropna_Fin:
  assumes "\<forall>v \<in> set V. is_fin v \<or> is_nan v"
  shows "\<exists>rs. dropna V = map Fin rs"
  using assms
proof (induction V)
  case Nil
  show ?case by (simp add: dropna_def)
next
  case (Cons v V)
  then obtain rs where rs: "dropna V = map Fin rs" by auto
  show ?case
  proof (cases v)
    case (Fin x)
    then have "dropna (v # V) = map Fin (x # rs)" using rs by (simp add: dropna_def)
    then show ?thesis by blast
  next
    case NaN
    then show ?thesis using rs by (auto simp: dropna_def)
  qed (use Cons.prems in auto)
qed

lemma quantile_Fin:
  assumes "rs \<noteq> []" "0 \<le> q" "q \<le> 1"
  shows "quantile (map Fin rs) q = Fin (lin_interp (sort rs) (real (length rs - 1) * q))"
  using np_percentile_Fin[of rs "100 * q"] assms by (simp add: quantile_def)

lemma lin_interp_in_range:
  assumes "rs \<noteq> []" "0 \<le> q" "q \<le> 1"
  shows "Min (set rs) \<le> lin_interp (sort rs) (real (length rs - 1) * q)"
    and "lin_interp (sort rs) (real (length rs - 1) * q) \<le> Max (set rs)"
proof -
  define s where "s = sort rs"
  define h where "h = real (length rs - 1) * q"
  have n: "length s = length rs" and st: "set s = set rs" and so: "sorted s"
    by (simp_all add: s_def)
  have ne: "s \<noteq> []" using assms(1) n by (metis length_0_conv)
  have h0: "0 \<le> h" using assms(2) by (simp add: h_def)
  have "h \<le> real (length rs - 1) * 1" unfolding h_def
    using assms(3) by (intro mult_left_mono) simp_all
  then have h1: "h \<le> real (length s - 1)" using n by simp
  then have "\<lfloor>h\<rfloor> \<le> int (length s - 1)" by (simp add: floor_le_iff)
  then have lo: "nat \<lfloor>h\<rfloor> < length s" using ne by (cases s) auto
  have hi: "min (nat \<lfloor>h\<rfloor> + 1) (length s - 1) < length s" using ne by (cases s) auto
  have "Min (set rs) \<le> s ! nat \<lfloor>h\<rfloor>" using lo st by (metis List.finite_set Min_le nth_mem)
  moreover have "s ! nat \<lfloor>h\<rfloor> \<le> lin_interp s h"
    using so h0 h1 ne by (rule lin_interp_bounds(1))
  ultimately show "Min (set rs) \<le> lin_interp (sort rs) (real (length rs - 1) * q)"
    unfolding s_def h_def by linarith
  have "s ! min (nat \<lfloor>h\<rfloor> + 1) (length s - 1) \<le> Max (set rs)"
    using hi st by (metis List.finite_set Max_ge nth_mem)
  moreover have "lin_interp s h \<le> s ! min (nat \<lfloor>h\<rfloor> + 1) (length s - 1)"
    using so h0 h1 ne by (rule lin_interp_bounds(2))
  ultimately show "lin_interp (sort rs) (real (length rs - 1) * q) \<le> Max (set rs)"
    unfolding s_def h_def by linarith
qed

lemma lin_interp_quantile_mono:
  assumes "rs \<noteq> []" "0 \<le> q" "q \<le> q'" "q' \<le> 1"
  shows "lin_interp (sort rs) (real (length rs - 1) * q)
         \<le> lin_interp (sort rs) (real (length rs - 1) * q')"
proof -
  have ne: "sort rs \<noteq> []" using assms(1) by (metis length_0_conv length_sort)
  have "real (length rs - 1) * q' \<le> real (length rs - 1) * 1"
    using assms(4) by (intro mult_left_mono) simp_all
  then have "real (length rs - 1) * q' \<le> real (length (sort rs) - 1)" by simp
  moreover have "real (length rs - 1) * q \<le> real (length rs - 1) * q'"
    using assms(3) by (intro mult_left_mono) simp_all
  moreover have "0 \<le> real (length rs - 1) * q" using assms(2) by simp
  ultimately show ?thesis using ne by (intro lin_interp_mono) simp_all
qed

section \<open>Properties of the TimeBinner stages\<close>

lemma np_minimum_Fin: "np_minimum (Fin a) (Fin b) = Fin (min a b)"
  by (simp add: np_minimum_def min_def)

lemma np_maximum_Fin: "np_maximum (Fin a) (Fin b) = Fin (max a b)"
  by (simp add: np_maximum_def max_def)

lemma foldl_np_minimum_Fin: "foldl np_minimum (Fin a) (map Fin rs) = Fin (Min (set (a # rs)))"
proof (induction rs arbitrary: a)
  case Nil
  show ?case by simp
next
  case (Cons r rs)
  have "Min (insert (min a r) (set rs)) = Min (insert a (insert r (set rs)))"
    by (cases "set rs = {}") (simp_all add: min.assoc)
  then show ?case using Cons[of "min a r"] by (simp add: np_minimum_Fin)
qed

lemma foldl_np_maximum_Fin: "foldl np_maximum (Fin a) (map Fin rs) = Fin (Max (set (a # rs)))"
proof (induction rs arbitrary: a)
  case Nil
  show ?case by simp
next
  case (Cons r rs)
  have "Max (insert (max a r) (set rs)) = Max (insert a (insert r (set rs)))"
    by (cases "set rs = {}") (simp_all add: max.assoc)
  then show ?case using Cons[of "max a r"] by (simp add: np_maximum_Fin)
qed

lemma np_amin_Fin: "rs \<noteq> [] \<Longrightarrow> np_amin (map Fin rs) = Inr (Fin (Min (set rs)))"
  by (cases rs) (simp_all add: foldl_np_minimum_Fin del: set_simps)

lemma np_amax_Fin: "rs \<noteq> [] \<Longrightarrow> np_amax (map Fin rs) = Inr (Fin (Max (set rs)))"
  by (cases rs) (simp_all add: foldl_np_maximum_Fin del: set_simps)

lemma linspace_Fin:
  assumes "0 \<le> num"
  shows "linspace (Fin a) (Fin b) num = Inr (map (\<lambda>i. Fin (lin_edge a b (nat num) i)) [0..<nat num])"
proof -
  define n where "n = nat num"
  have num: "num = int n" using assms by (simp add: n_def)
  show ?thesis
  proof (cases "num > 1")
    case False
    then have "n = 0 \<or> n = 1" using num by linarith
    then show ?thesis using False num
      by (auto simp: linspace_def Let_def fl_sub_def lin_edge_def)
  next
    case True
    then have n2: "2 \<le> n" using num by linarith
    have dv: "real_of_int (num - 1) = real (n - 1)" using n2 num by simp
    have dvpos: "0 < real (n - 1)" using n2 by simp
    let ?step = "(b - a) / real (n - 1)"
    have y1: "(if fl_eq (fl_div (fl_sub (Fin b) (Fin a)) (Fin (real (n - 1)))) (Fin 0)
               then map (\<lambda>v. fl_mul (fl_div v (Fin (real (n - 1)))) (fl_sub (Fin b) (Fin a)))
                      (map (\<lambda>i. Fin (real i)) [0..<n])
               else map (\<lambda>v. fl_mul v (fl_div (fl_sub (Fin b) (Fin a)) (Fin (real (n - 1)))))
                      (map (\<lambda>i. Fin (real i)) [0..<n]))
              = map (\<lambda>i. Fin (real i * ?step)) [0..<n]"
      using dvpos by (auto simp: fl_sub_def)
    have last_eq: "lin_edge a b n (n - 1) = b" using dvpos by (simp add: lin_edge_def)
    have upd: "(map (\<lambda>i. Fin (lin_edge a b n i)) [0..<n])[n - 1 := Fin b]
               = map (\<lambda>i. Fin (lin_edge a b n i)) [0..<n]"
      using n2 last_eq by (intro list_update_same_conv[THEN iffD2]) simp_all
    have "linspace (Fin a) (Fin b) num
          = Inr ((map (\<lambda>v. fl_add v (Fin a)) (map (\<lambda>i. Fin (real i * ?step)) [0..<n]))[n - 1 := Fin b])"
      using True assms y1 unfolding linspace_def Let_def n_def[symmetric] dv
      by (simp add: dv)
    also have "(map (\<lambda>v. fl_add v (Fin a)) (map (\<lambda>i. Fin (real i * ?step)) [0..<n]))
               = map (\<lambda>i. Fin (lin_edge a b n i)) [0..<n]"
      by (simp add: lin_edge_def add.commute)
    finally show ?thesis using upd by (simp add: n_def)
  qed
qed

lemma lin_edge_strict_mono:
  assumes "a < b" "2 \<le> n" "i < j"
  shows "lin_edge a b n i < lin_edge a b n j"
proof -
  have "0 < (b - a) / real (n - 1)" using assms by simp
  moreover have "real i < real j" using assms(3) by simp
  ultimately have "real i * ((b - a) / real (n - 1)) < real j * ((b - a) / real (n - 1))"
    by (rule mult_strict_right_mono[rotated])
  then show ?thesis unfolding lin_edge_def by simp
qed

lemma lin_edge_first: "lin_edge a b n 0 = a"
  by (simp add: lin_edge_def)

lemma lin_edge_last: "2 \<le> n \<Longrightarrow> lin_edge a b n (n - 1) = b"
  by (simp add: lin_edge_def)

lemma lin_edge_const: "lin_edge a a n i = a"
  by (simp add: lin_edge_def)

lemma lin_edge_mono:
  assumes "a \<le> b" "i \<le> j"
  shows "lin_edge a b n i \<le> lin_edge a b n j"
proof -
  have "0 \<le> (b - a) / real (n - 1)" using assms by simp
  then have "real i * ((b - a) / real (n - 1)) \<le> real j * ((b - a) / real (n - 1))"
    using assms(2) by (intro mult_right_mono) simp_all
  then show ?thesis unfolding lin_edge_def by simp
qed

lemma sorted_lin_edges: "a \<le> b \<Longrightarrow> sorted (map (lin_edge a b n) [0..<m])"
  by (auto simp: sorted_iff_nth_mono intro: lin_edge_mono)

lemma skip_repeated_Fin:
  "\<exists>zs. skip_repeated (Fin a) (map Fin rs) = map Fin zs \<and> (zs \<noteq> [] \<longrightarrow> hd zs \<noteq> a)
        \<and> (\<exists>ys. rs = ys @ zs)"
proof (induction rs)
  case Nil
  show ?case by simp
next
  case (Cons r rs)
  show ?case
  proof (cases "r = a")
    case True
    from Cons obtain zs ys where "skip_repeated (Fin a) (map Fin rs) = map Fin zs"
      "zs \<noteq> [] \<longrightarrow> hd zs \<noteq> a" "rs = ys @ zs" by blast
    then show ?thesis using True by (intro exI[of _ zs]) (auto intro: exI[of _ "r # ys"])
  next
    case False
    then show ?thesis by (intro exI[of _ "r # rs"]) auto
  qed
qed

lemma never_falls_sorted: "sorted (r # rs) \<Longrightarrow> never_falls (Fin r) (map Fin rs)"
  by (induction rs arbitrary: r) auto

lemma monotonicity_sorted:
  assumes "sorted rs"
  shows "monotonicity (map Fin rs) = 1"
proof (cases rs)
  case Nil
  then show ?thesis by (simp add: monotonicity_def)
next
  case (Cons a as)
  obtain zs ys where zs: "skip_repeated (Fin a) (map Fin as) = map Fin zs"
    "zs \<noteq> [] \<longrightarrow> hd zs \<noteq> a" "as = ys @ zs"
    using skip_repeated_Fin[of a as] by blast
  show ?thesis
  proof (cases zs)
    case Nil
    then show ?thesis using Cons zs by (simp add: monotonicity_def)
  next
    case (Cons z zs')
    have so: "sorted (a # ys @ z # zs')" using assms \<open>rs = a # as\<close> zs(3) Cons by simp
    then have "a \<le> z" by simp
    moreover have "z \<noteq> a" using zs(2) Cons by simp
    ultimately have lt: "a < z" by simp
    have "sorted (z # zs')" using so by (simp add: sorted_append)
    then have "never_falls (Fin z) (map Fin zs')" by (rule never_falls_sorted)
    then show ?thesis using \<open>rs = a # as\<close> zs(1) Cons lt by (simp add: monotonicity_def)
  qed
qed

lemma searchsorted_left_Fin:
  "searchsorted_left (map Fin es) (Fin v) = length (filter (\<lambda>e. e < v) es)"
  by (induction es) (auto simp: searchsorted_left_def np_less_def)

lemma filter_less_sorted: "sorted es \<Longrightarrow> filter (\<lambda>e. e < (v::real)) es = takeWhile (\<lambda>e. e < v) es"
proof (induction es)
  case Nil
  show ?case by simp
next
  case (Cons e es)
  show ?case
  proof (cases "e < v")
    case True
    then show ?thesis using Cons by simp
  next
    case False
    then have "\<forall>x \<in> set es. \<not> x < v" using Cons.prems by auto
    then show ?thesis using False by (simp add: filter_empty_conv)
  qed
qed

lemma digitize_right_sorted:
  assumes "sorted es"
  shows "digitize_right (map Fin ts) (map Fin es)
         = Inr (map (\<lambda>v. length (takeWhile (\<lambda>e. e < v) es)) ts)"
  using assms
  by (simp add: digitize_right_def monotonicity_sorted Let_def searchsorted_left_Fin
      filter_less_sorted comp_def)

lemma first_edge_properties:
  assumes "sorted es" "es \<noteq> []" "v \<le> last es"
  defines "k \<equiv> length (takeWhile (\<lambda>e. e < v) es)"
  shows "k < length es" and "v \<le> es ! k" and "\<forall>j < length es. v \<le> es ! j \<longrightarrow> es ! k \<le> es ! j"
proof -
  have "\<not> last es < v" using assms(3) by simp
  then have "takeWhile (\<lambda>e. e < v) es \<noteq> es"
    using assms(2) by (metis last_in_set set_takeWhileD)
  then have "length (takeWhile (\<lambda>e. e < v) es) \<noteq> length es"
    by (metis takeWhile_dropWhile_id append_self_conv length_append add_cancel_right_right
        length_0_conv)
  then show k: "k < length es" unfolding k_def
    using length_takeWhile_le[of "\<lambda>e. e < v" es] by linarith
  show "v \<le> es ! k" using nth_length_takeWhile[OF k[unfolded k_def]] by (simp add: k_def)
  show "\<forall>j < length es. v \<le> es ! j \<longrightarrow> es ! k \<le> es ! j"
  proof (intro allI impI)
    fix j assume j: "j < length es" and vj: "v \<le> es ! j"
    have "k \<le> j"
    proof (rule ccontr)
      assume "\<not> k \<le> j"
      then have "j < length (takeWhile (\<lambda>e. e < v) es)" by (simp add: k_def)
      then have "es ! j < v" by (metis nth_mem set_takeWhileD takeWhile_nth)
      then show False using vj by simp
    qed
    then show "es ! k \<le> es ! j" using assms(1) j by (simp add: sorted_nth_mono)
  qed
qed

lemma fl_eq_iff: "fl_eq a b \<longleftrightarrow> a = b \<and> \<not> is_nan a"
  by (cases a; cases b) auto

lemma dict_lookup_append:
  "dict_lookup (dict_append d k v) b =
     (if fl_eq k b then Some ((case dict_lookup d b of None \<Rightarrow> [] | Some vs \<Rightarrow> vs) @ [v])
      else dict_lookup d b)"
proof (induction d)
  case Nil
  show ?case by simp
next
  case (Cons e d)
  obtain k' vs where e: "e = (k', vs)" by (cases e)
  show ?case using Cons unfolding e by (auto simp: fl_eq_iff)
qed

lemma fill_bins_lookup:
  assumes "\<forall>p \<in> set pairs. fst p < length x"
  shows "\<exists>d'. fill_bins x pairs d = Inr d'
           \<and> (\<forall>b. dict_lookup d' b = merge_obs (dict_lookup d b) (obs_of x pairs b))"
  using assms
proof (induction pairs arbitrary: d)
  case Nil
  show ?case by (simp add: obs_of_def merge_obs_def split: option.splits)
next
  case (Cons p pairs)
  obtain k v where p: "p = (k, v)" by (cases p)
  have k: "k < length x" using Cons.prems p by simp
  from Cons.IH[of "dict_append d (x ! k) v"] Cons.prems
  obtain d' where d': "fill_bins x pairs (dict_append d (x ! k) v) = Inr d'"
    "\<forall>b. dict_lookup d' b = merge_obs (dict_lookup (dict_append d (x ! k) v) b) (obs_of x pairs b)"
    by auto
  have "\<forall>b. dict_lookup d' b = merge_obs (dict_lookup d b) (obs_of x (p # pairs) b)"
    using d'(2) unfolding p
    by (auto simp: dict_lookup_append obs_of_def merge_obs_def split: option.splits)
  then show ?case using d'(1) k p by simp
qed

lemma fill_bins_IndexError:
  assumes "pairs \<noteq> []" "\<forall>p \<in> set pairs. \<not> fst p < length x"
  shows "fill_bins x pairs d = Inl IndexError"
  using assms by (cases pairs) auto

lemma band_rows_eq: "band_rows x d = map (\<lambda>p. map (band_value d p) x) percentiles"
proof -
  have "foldl (band_step d) (replicate (length percentiles) []) x
        = map (\<lambda>p. map (band_value d p) x) percentiles"
  proof (induction x rule: rev_induct)
    case Nil
    show ?case by (simp add: percentiles_def)
  next
    case (snoc b x)
    have "band_step d (map (\<lambda>p. map (band_value d p) x) percentiles) b
          = map (\<lambda>p. map (band_value d p) (x @ [b])) percentiles"
      by (simp add: band_step_def band_value_def percentiles_def split: option.splits)
    then show ?case using snoc by simp
  qed
  then show ?thesis by (simp add: band_rows_def)
qed

lemma correlate1d_length: "length (correlate1d input w lw) = length input"
  by (simp add: correlate1d_def Let_def)

lemma gaussian_filter1d_ok:
  assumes "0 < sigma"
  shows "\<exists>out. gaussian_filter1d v sigma = Inr out \<and> length out = length v"
proof -
  have "0 \<le> py_int (4 * sigma + 1 / 2)" using assms by (simp add: py_int_def)
  then show ?thesis using assms by (simp add: gaussian_filter1d_def Let_def correlate1d_length)
qed

lemma smooth_rows_ok:
  assumes "0 < sigma"
  shows "\<exists>y'. smooth_rows y sigma = Inr y' \<and> length y' = length y
           \<and> (\<forall>i < length y. length (y' ! i) = length (y ! i))"
proof (induction y)
  case Nil
  show ?case by simp
next
  case (Cons v y)
  obtain v' where v': "gaussian_filter1d v sigma = Inr v'" "length v' = length v"
    using gaussian_filter1d_ok[OF assms] by blast
  obtain y' where y': "smooth_rows y sigma = Inr y'" "length y' = length y"
    "\<forall>i < length y. length (y' ! i) = length (y ! i)" using Cons by blast
  have "\<forall>i < length (v # y). length ((v' # y') ! i) = length ((v # y) ! i)"
    using v'(2) y'(3) by (auto simp: nth_Cons split: nat.splits)
  then show ?case using v'(1) y'(1,2) by simp
qed

lemma all_fin_map: "\<forall>s \<in> set xs. is_fin s \<Longrightarrow> \<exists>rs. xs = map Fin rs"
proof (induction xs)
  case Nil
  show ?case by simp
next
  case (Cons s xs)
  then obtain rs where "xs = map Fin rs" by auto
  moreover obtain r where "s = Fin r" using Cons.prems by (cases s) auto
  ultimately have "s # xs = map Fin (r # rs)" by simp
  then show ?case ..
qed

lemma hours_Fin: "map (\<lambda>s. fl_div s (Fin 3600)) (map Fin Ts) = map Fin (hours Ts)"
  by (simp add: hours_def)

lemma edges_of_props:
  assumes "hs \<noteq> []" "2 \<le> n"
  shows "length (edges_of hs n) = n" and "sorted (edges_of hs n)"
    and "edges_of hs n \<noteq> []" and "last (edges_of hs n) = Max (set hs)"
proof -
  have le: "Min (set hs) \<le> Max (set hs)" using assms(1) by simp
  show "length (edges_of hs n) = n" by (simp add: edges_of_def)
  show "sorted (edges_of hs n)" unfolding edges_of_def using le by (rule sorted_lin_edges)
  show ne: "edges_of hs n \<noteq> []" using assms(2) by (simp add: edges_of_def)
  have "last (edges_of hs n) = edges_of hs n ! (n - 1)"
    using ne by (simp add: last_conv_nth edges_of_def)
  also have "\<dots> = lin_edge (Min (set hs)) (Max (set hs)) n (n - 1)"
    using assms(2) by (simp add: edges_of_def)
  also have "\<dots> = Max (set hs)" by (rule lin_edge_last[OF assms(2)])
  finally show "last (edges_of hs n) = Max (set hs)" .
qed

lemma bin_index_props:
  assumes "hs \<noteq> []" "2 \<le> n" "v \<in> set hs"
  shows "bin_index (edges_of hs n) v < n"
    and "v \<le> edges_of hs n ! bin_index (edges_of hs n) v"
    and "\<forall>j < n. v \<le> edges_of hs n ! j
           \<longrightarrow> edges_of hs n ! bin_index (edges_of hs n) v \<le> edges_of hs n ! j"
proof -
  note e = edges_of_props[OF assms(1,2)]
  have v: "v \<le> last (edges_of hs n)" using assms(3) e(4) by simp
  show "bin_index (edges_of hs n) v < n"
    using first_edge_properties(1)[OF e(2) e(3) v] e(1) by (simp add: bin_index_def)
  show "v \<le> edges_of hs n ! bin_index (edges_of hs n) v"
    using first_edge_properties(2)[OF e(2) e(3) v] by (simp add: bin_index_def)
  show "\<forall>j < n. v \<le> edges_of hs n ! j
           \<longrightarrow> edges_of hs n ! bin_index (edges_of hs n) v \<le> edges_of hs n ! j"
    using first_edge_properties(3)[OF e(2) e(3) v] e(1) by (simp add: bin_index_def)
qed

lemma over_time_bins_finite:
  assumes "Ts \<noteq> []" "2 \<le> time_bins"
  defines "es \<equiv> edges_of (hours Ts) (nat time_bins)"
  defines "idx \<equiv> map (bin_index es) (hours Ts)"
  shows "\<exists>d. over_time_bins data (map Fin Ts) time_bins = Inr (map Fin es, idx, d)
           \<and> (\<forall>b. dict_lookup d b = merge_obs None (obs_of (map Fin es) (zip idx data) b))"
proof -
  define hs where "hs = hours Ts"
  define n where "n = nat time_bins"
  have hne: "hs \<noteq> []" using assms(1) by (simp add: hs_def hours_def)
  have n2: "2 \<le> n" using assms(2) by (simp add: n_def)
  note e = edges_of_props[OF hne n2]
  have mn: "np_amin (map Fin hs) = Inr (Fin (Min (set hs)))" using hne by (rule np_amin_Fin)
  have mx: "np_amax (map Fin hs) = Inr (Fin (Max (set hs)))" using hne by (rule np_amax_Fin)
  have ls: "linspace (Fin (Min (set hs))) (Fin (Max (set hs))) time_bins = Inr (map Fin es)"
    using assms(2) linspace_Fin[of time_bins "Min (set hs)" "Max (set hs)"]
    by (simp add: es_def edges_of_def hs_def n_def comp_def)
  have dg: "digitize_right (map Fin hs) (map Fin es) = Inr idx"
    using digitize_right_sorted[of es hs] e(2)
    by (simp add: es_def idx_def hs_def n_def bin_index_def)
  have "\<forall>p \<in> set (zip idx data). fst p < length (map Fin es)"
  proof
    fix p assume "p \<in> set (zip idx data)"
    then have "fst p \<in> set idx" by (metis in_set_zipE prod.collapse)
    then obtain v where "v \<in> set hs" "fst p = bin_index es v" by (auto simp: idx_def hs_def)
    then show "fst p < length (map Fin es)"
      using bin_index_props(1)[OF hne n2] e(1) by (simp add: es_def hs_def n_def)
  qed
  from fill_bins_lookup[OF this, of "[]"] obtain d where
    d: "fill_bins (map Fin es) (zip idx data) [] = Inr d"
    "\<forall>b. dict_lookup d b = merge_obs None (obs_of (map Fin es) (zip idx data) b)" by auto
  have "over_time_bins data (map Fin Ts) time_bins = Inr (map Fin es, idx, d)"
    unfolding over_time_bins_def Let_def hours_Fin hs_def[symmetric]
    by (simp add: mn mx ls dg d(1))
  then show ?thesis using d(2) by blast
qed

lemma foldl_np_minimum_NaN: "foldl np_minimum NaN vs = NaN"
  by (induction vs) (simp_all add: np_minimum_def)

lemma foldl_np_maximum_NaN: "foldl np_maximum NaN vs = NaN"
  by (induction vs) (simp_all add: np_maximum_def)

lemma foldl_np_minimum_has_NaN: "NaN \<in> set vs \<Longrightarrow> foldl np_minimum v vs = NaN"
proof (induction vs arbitrary: v)
  case Nil
  then show ?case by simp
next
  case (Cons w vs)
  show ?case
  proof (cases "w = NaN")
    case True
    then have "np_minimum v w = NaN" by (cases v) (simp_all add: np_minimum_def)
    then show ?thesis by (simp add: foldl_np_minimum_NaN)
  next
    case False
    then show ?thesis using Cons by simp
  qed
qed

lemma foldl_np_maximum_has_NaN: "NaN \<in> set vs \<Longrightarrow> foldl np_maximum v vs = NaN"
proof (induction vs arbitrary: v)
  case Nil
  then show ?case by simp
next
  case (Cons w vs)
  show ?case
  proof (cases "w = NaN")
    case True
    then have "np_maximum v w = NaN" by (cases v) (simp_all add: np_maximum_def)
    then show ?thesis by (simp add: foldl_np_maximum_NaN)
  next
    case False
    then show ?thesis using Cons by simp
  qed
qed

lemma np_amin_has_NaN: "NaN \<in> set vs \<Longrightarrow> np_amin vs = Inr NaN"
  by (cases vs) (auto simp: foldl_np_minimum_NaN foldl_np_minimum_has_NaN)

lemma np_amax_has_NaN: "NaN \<in> set vs \<Longrightarrow> np_amax vs = Inr NaN"
  by (cases vs) (auto simp: foldl_np_maximum_NaN foldl_np_maximum_has_NaN)

lemma fl_mul_NaN_right: "fl_mul v NaN = NaN"
  by (cases v) simp_all

lemma fl_add_NaN_right: "fl_add v NaN = NaN"
  by (cases v) simp_all

lemma linspace_NaN:
  assumes "2 \<le> num"
  shows "linspace NaN NaN num = Inr (replicate (nat num) NaN)"
proof -
  have "(map (\<lambda>v. fl_add v NaN) (map (\<lambda>v. fl_mul v NaN) (map (\<lambda>i. Fin (real i)) [0..<nat num])))
        = replicate (nat num) NaN"
    by (simp add: fl_mul_NaN_right comp_def map_replicate_const)
  moreover have "(replicate (nat num) NaN)[nat num - 1 := NaN] = replicate (nat num) NaN"
    by (intro list_update_same_conv[THEN iffD2]) (use assms in simp_all)
  ultimately show ?thesis using assms
    by (simp add: linspace_def Let_def fl_sub_def)
qed

lemma never_rises_NaN: "never_rises NaN (replicate m NaN)"
  by (induction m) simp_all

lemma monotonicity_NaN: "2 \<le> n \<Longrightarrow> monotonicity (replicate n NaN) = - 1"
proof -
  assume "2 \<le> n"
  then obtain m where n: "n = Suc (Suc m)" by (metis Suc_le_D numeral_2_eq_2 Suc_le_mono)
  show ?thesis by (simp add: n monotonicity_def never_rises_NaN)
qed

lemma searchsorted_left_all_NaN: "searchsorted_left (replicate n NaN) v = 0"
  by (cases v) (simp_all add: searchsorted_left_def np_less_def)

lemma digitize_right_NaN:
  "2 \<le> n \<Longrightarrow> digitize_right t (replicate n NaN) = Inr (replicate (length t) n)"
  by (simp add: digitize_right_def Let_def monotonicity_NaN searchsorted_left_all_NaN
      map_replicate_const)

lemma over_time_bins_NaN:
  assumes "\<exists>s \<in> set time_series. is_nan s" "2 \<le> time_bins" "data \<noteq> []"
  shows "over_time_bins data time_series time_bins = Inl IndexError"
proof -
  define t where "t = map (\<lambda>s. fl_div s (Fin 3600)) time_series"
  define n where "n = nat time_bins"
  have n2: "2 \<le> n" using assms(2) by (simp add: n_def)
  obtain s where s: "s \<in> set time_series" "is_nan s" using assms(1) by blast
  have "s = NaN" using s(2) by (cases s) simp_all
  then have "NaN \<in> set time_series" using s(1) by simp
  then have "fl_div NaN (Fin 3600) \<in> set t" unfolding t_def by (metis imageI set_map)
  then have nan: "NaN \<in> set t" by simp
  then have tne: "t \<noteq> []" by auto
  have mn: "np_amin t = Inr NaN" and mx: "np_amax t = Inr NaN"
    using nan by (simp_all add: np_amin_has_NaN np_amax_has_NaN)
  have ls: "linspace NaN NaN time_bins = Inr (replicate n NaN)"
    using linspace_NaN[OF assms(2)] by (simp add: n_def)
  have dg: "digitize_right t (replicate n NaN) = Inr (replicate (length t) n)"
    using n2 by (rule digitize_right_NaN)
  have ne: "zip (replicate (length t) n) data \<noteq> []"
    using tne assms(3) by (cases t; cases data) simp_all
  have "\<forall>p \<in> set (zip (replicate (length t) n) data). \<not> fst p < length (replicate n NaN)"
    by (auto dest!: set_zip_leftD)
  then have fb: "fill_bins (replicate n NaN) (zip (replicate (length t) n) data) [] = Inl IndexError"
    using ne by (intro fill_bins_IndexError) simp_all
  show ?thesis
    unfolding over_time_bins_def Let_def t_def[symmetric]
    by (simp add: mn mx ls dg fb)
qed

lemma np_sort_last_NaN:
  assumes "NaN \<in> set a"
  shows "last (np_sort a) = NaN"
proof -
  have st: "set (np_sort a) = set a" by (simp add: np_sort_def)
  have ne: "np_sort a \<noteq> []" using assms st by (metis empty_iff set_empty)
  have so: "sorted (map np_key (np_sort a))" by (simp add: np_sort_def)
  obtain i where i: "i < length (np_sort a)" "np_sort a ! i = NaN"
    using assms st by (metis in_set_conv_nth)
  have "np_key (np_sort a ! i) \<le> np_key (np_sort a ! (length (np_sort a) - 1))"
    using sorted_nth_mono[OF so, of i "length (np_sort a) - 1"] i(1) by simp
  then have "(3, 0) \<le> np_key (last (np_sort a))" using i(2) ne by (simp add: last_conv_nth)
  then show ?thesis by (cases "last (np_sort a)") simp_all
qed

lemma np_percentile_NaN: "NaN \<in> set a \<Longrightarrow> np_percentile a p = NaN"
  by (simp add: np_percentile_def Let_def np_sort_last_NaN)

lemma band_rows_nth:
  assumes "i < 5" "j < length x"
    "\<forall>b. dict_lookup d b = merge_obs None (obs_of x pairs b)"
  shows "band_rows x d ! i ! j =
           (if obs_of x pairs (x ! j) = [] then NaN
            else np_percentile (obs_of x pairs (x ! j)) (percentiles ! i))"
proof -
  have i: "i < length percentiles" using assms(1) by (simp add: percentiles_def)
  have "band_rows x d ! i ! j = band_value d (percentiles ! i) (x ! j)"
    using i assms(2) by (simp add: band_rows_eq)
  then show ?thesis using assms(3) by (simp add: band_value_def merge_obs_def)
qed

lemma length_band_rows: "length (band_rows x d) = 5"
  and length_band_row: "\<forall>row \<in> set (band_rows x d). length row = length x"
  by (auto simp: band_rows_eq percentiles_def)

lemma time_binner_stages:
  assumes "time_series \<noteq> []" and "\<forall>s \<in> set time_series. is_fin s" and "2 \<le> time_bins"
  shows "\<exists>x idx d y.
           over_time_bins data_series time_series time_bins = Inr (x, idx, d)
         \<and> over_time_percentiles data_series time_series time_bins = Inr (x, y)
         \<and> length x = nat time_bins \<and> length idx = length time_series \<and> length y = 5
         \<and> (\<forall>k < length time_series.
               idx ! k < length x
             \<and> fl_le (fl_div (time_series ! k) (Fin 3600)) (x ! (idx ! k))
             \<and> (\<forall>j < length x. fl_le (fl_div (time_series ! k) (Fin 3600)) (x ! j)
                    \<longrightarrow> fl_le (x ! (idx ! k)) (x ! j)))
         \<and> (\<forall>i < 5. \<forall>j < length x.
               y ! i ! j =
                 (if obs_of x (zip idx data_series) (x ! j) = [] then NaN
                  else np_percentile (obs_of x (zip idx data_series) (x ! j)) (percentiles ! i)))"
proof -
  obtain Ts where Ts: "time_series = map Fin Ts" using all_fin_map[OF assms(2)] by blast
  have Tne: "Ts \<noteq> []" using assms(1) Ts by simp
  define hs where "hs = hours Ts"
  define n where "n = nat time_bins"
  define es where "es = edges_of hs n"
  define idx where "idx = map (bin_index es) hs"
  define x where "x = map Fin es"
  have hne: "hs \<noteq> []" using Tne by (simp add: hs_def hours_def)
  have n2: "2 \<le> n" using assms(3) by (simp add: n_def)
  note e = edges_of_props[OF hne n2]
  obtain d where d: "over_time_bins data_series time_series time_bins = Inr (x, idx, d)"
    "\<forall>b. dict_lookup d b = merge_obs None (obs_of x (zip idx data_series) b)"
    using over_time_bins_finite[OF Tne assms(3), of data_series]
    unfolding Ts x_def idx_def es_def hs_def n_def by blast
  define y where "y = band_rows x d"
  have p: "over_time_percentiles data_series time_series time_bins = Inr (x, y)"
    by (simp add: over_time_percentiles_def d(1) y_def)
  have lx: "length x = n" by (simp add: x_def es_def e(1)[unfolded es_def[symmetric]] edges_of_def)
  have lidx: "length idx = length time_series" by (simp add: idx_def hs_def hours_def Ts)
  have ly: "length y = 5" by (simp add: y_def length_band_rows)
  have asg: "\<forall>k < length time_series.
               idx ! k < length x
             \<and> fl_le (fl_div (time_series ! k) (Fin 3600)) (x ! (idx ! k))
             \<and> (\<forall>j < length x. fl_le (fl_div (time_series ! k) (Fin 3600)) (x ! j)
                    \<longrightarrow> fl_le (x ! (idx ! k)) (x ! j))"
  proof (intro allI impI)
    fix k assume k: "k < length time_series"
    then have kh: "k < length hs" by (simp add: hs_def hours_def Ts)
    then have vin: "hs ! k \<in> set hs" by simp
    have tk: "fl_div (time_series ! k) (Fin 3600) = Fin (hs ! k)"
      using k by (simp add: Ts hs_def hours_def)
    have ik: "idx ! k = bin_index es (hs ! k)" using kh by (simp add: idx_def)
    note b = bin_index_props[OF hne n2 vin, folded es_def]
    have lt: "idx ! k < length x" using b(1) lx ik by simp
    have xk: "x ! (idx ! k) = Fin (es ! (idx ! k))" using lt by (simp add: x_def)
    have "fl_le (Fin (hs ! k)) (Fin (es ! (idx ! k)))" using b(2) by (simp add: ik fl_le_Fin)
    then have le: "fl_le (fl_div (time_series ! k) (Fin 3600)) (x ! (idx ! k))"
      by (simp only: tk xk)
    have least: "\<forall>j < length x. fl_le (fl_div (time_series ! k) (Fin 3600)) (x ! j)
                    \<longrightarrow> fl_le (x ! (idx ! k)) (x ! j)"
    proof (intro allI impI)
      fix j assume j: "j < length x" and h: "fl_le (fl_div (time_series ! k) (Fin 3600)) (x ! j)"
      have xj: "x ! j = Fin (es ! j)" using j by (simp add: x_def)
      have "hs ! k \<le> es ! j" using h by (simp add: tk xj fl_le_Fin)
      then have "es ! (idx ! k) \<le> es ! j" using b(3) j lx ik by simp
      then show "fl_le (x ! (idx ! k)) (x ! j)" by (simp add: xk xj fl_le_Fin)
    qed
    show "idx ! k < length x
             \<and> fl_le (fl_div (time_series ! k) (Fin 3600)) (x ! (idx ! k))
             \<and> (\<forall>j < length x. fl_le (fl_div (time_series ! k) (Fin 3600)) (x ! j)
                    \<longrightarrow> fl_le (x ! (idx ! k)) (x ! j))"
      using lt le least by blast
  qed
  have bands: "\<forall>i < 5. \<forall>j < length x.
               y ! i ! j =
                 (if obs_of x (zip idx data_series) (x ! j) = [] then NaN
                  else np_percentile (obs_of x (zip idx data_series) (x ! j)) (percentiles ! i))"
    unfolding y_def using band_rows_nth[OF _ _ d(2)] by blast
  show ?thesis
    using d(1) p lx lidx ly asg bands unfolding n_def by blast
qed

lemmas tb_eval = over_time_percentiles_def over_time_bins_def linspace_def Let_def fl_sub_def
  upt_conv_Cons np_minimum_def np_maximum_def digitize_right_def monotonicity_def
  searchsorted_left_def np_less_def band_rows_def band_step_def percentiles_def
  np_percentile_def np_sort_def lerp_def

lemma hours_has_NaN:
  assumes "\<exists>s \<in> set time_series. is_nan s"
  shows "NaN \<in> set (map (\<lambda>s. fl_div s (Fin 3600)) time_series)"
proof -
  obtain s where s: "s \<in> set time_series" "is_nan s" using assms by blast
  have "s = NaN" using s(2) by (cases s) simp_all
  then have "fl_div NaN (Fin 3600) \<in> set (map (\<lambda>s. fl_div s (Fin 3600)) time_series)"
    using s(1) by (metis imageI set_map)
  then show ?thesis by simp
qed

lemma over_time_graph_finite:
  assumes "Ts \<noteq> []" "2 \<le> time_bins" "0 < sigma"
  shows "\<exists>y. over_time_graph data (map Fin Ts) time_bins sigma
               = Inr (map Fin (edges_of (hours Ts) (nat time_bins)), y)
           \<and> length y = 5 \<and> (\<forall>row \<in> set y. length row = nat time_bins)"
proof -
  define x where "x = map Fin (edges_of (hours Ts) (nat time_bins))"
  obtain d where d: "over_time_bins data (map Fin Ts) time_bins
      = Inr (x, map (bin_index (edges_of (hours Ts) (nat time_bins))) (hours Ts), d)"
    using over_time_bins_finite[OF assms(1,2), of data] unfolding x_def by blast
  have lx: "length x = nat time_bins" by (simp add: x_def edges_of_def)
  obtain y' where y': "smooth_rows (band_rows x d) sigma = Inr y'"
    "length y' = length (band_rows x d)"
    "\<forall>i < length (band_rows x d). length (y' ! i) = length (band_rows x d ! i)"
    using smooth_rows_ok[OF assms(3)] by blast
  have ly: "length y' = 5" using y'(2) by (simp add: length_band_rows)
  have "\<forall>row \<in> set y'. length row = nat time_bins"
  proof
    fix row assume "row \<in> set y'"
    then obtain i where i: "i < length y'" "row = y' ! i" by (metis in_set_conv_nth)
    then have "length row = length (band_rows x d ! i)" using y'(2,3) by simp
    moreover have "band_rows x d ! i \<in> set (band_rows x d)" using i(1) y'(2) by simp
    ultimately show "length row = nat time_bins" using length_band_row lx by metis
  qed
  moreover have "over_time_graph data (map Fin Ts) time_bins sigma = Inr (x, y')"
    by (simp add: over_time_graph_def over_time_percentiles_def d y'(1))
  ultimately show ?thesis using ly unfolding x_def by blast
qed

lemma edges_constant: "map (lin_edge a a n) [0..<m] = replicate m a"
  by (induction m) (simp_all add: lin_edge_const replicate_append_same)

lemma edges_strictly_increasing:
  assumes "Min (set hs) < Max (set hs)" "2 \<le> n"
  shows "sorted_wrt fl_lt (map Fin (edges_of hs n))"
proof -
  have "\<forall>i j. i < j \<longrightarrow> j < n \<longrightarrow>
          fl_lt (map Fin (edges_of hs n) ! i) (map Fin (edges_of hs n) ! j)"
    using lin_edge_strict_mono[OF assms] by (simp add: edges_of_def)
  then show ?thesis by (simp add: sorted_wrt_iff_nth_less edges_of_def)
qed

lemma dropna_idem: "dropna (dropna V) = dropna V"
  by (simp add: dropna_def)

lemma fl_le_not_nan: "fl_le a b \<Longrightarrow> \<not> is_nan b"
  by (cases a; cases b) (simp_all add: fl_le_def)

lemma precompute_uses_dropna:
  "precompute_boxplot_values V = precompute_boxplot_values (dropna V)"
  by (simp add: precompute_boxplot_values_def dropna_idem)

lemma precompute_quantiles:
  assumes "dropna V \<noteq> []"
  shows "\<exists>r. precompute_boxplot_values V = Inr r
           \<and> q1 r = quantile (dropna V) (25 / 100)
           \<and> median r = quantile (dropna V) (50 / 100)
           \<and> q3 r = quantile (dropna V) (75 / 100)"
proof -
  obtain v vs where "dropna V = v # vs" using assms by (cases "dropna V") auto
  then show ?thesis by (simp add: precompute_boxplot_values_def Let_def)
qed

section \<open>Properties of the DistributionSmoother stages\<close>

lemma linspace_length:
  "0 \<le> num \<Longrightarrow> \<exists>bins. linspace s e num = Inr bins \<and> length bins = nat num"
  by (simp add: linspace_def Let_def)

lemma length_search_sorted_inclusive: "length (search_sorted_inclusive a v) = length v"
  by (cases v rule: rev_cases) (simp_all add: search_sorted_inclusive_def)

lemma histogram_ok:
  assumes "\<forall>i. Suc i < length bins \<longrightarrow> \<not> fl_lt (bins ! Suc i) (bins ! i)"
  shows "\<exists>dens. np_histogram_density a bins = Inr (dens, bins) \<and> length dens = length bins - 1"
proof -
  have "\<not> list_ex (\<lambda>(lo, hi). fl_lt hi lo) (zip bins (tl bins))"
  proof
    assume "list_ex (\<lambda>(lo, hi). fl_lt hi lo) (zip bins (tl bins))"
    then obtain lo hi where m: "(lo, hi) \<in> set (zip bins (tl bins))" and lt: "fl_lt hi lo"
      by (auto simp: list_ex_iff)
    from m obtain i where i: "i < length (tl bins)" "lo = bins ! i" "hi = tl bins ! i"
      by (auto simp: set_zip)
    have "hi = bins ! Suc i" using i(1,3) by (simp add: nth_tl)
    moreover have "Suc i < length bins" using i(1) by simp
    ultimately show False using assms lt i(2) by blast
  qed
  then show ?thesis
    by (simp add: np_histogram_density_def Let_def np_diff_int_def np_diff_fl_def
        length_search_sorted_inclusive)
qed

lemma histogram_ok_sorted:
  assumes "sorted es"
  shows "\<exists>dens. np_histogram_density a (map Fin es) = Inr (dens, map Fin es)
           \<and> length dens = length es - 1"
proof -
  have "\<forall>i. Suc i < length (map Fin es) \<longrightarrow> \<not> fl_lt (map Fin es ! Suc i) (map Fin es ! i)"
  proof (intro allI impI)
    fix i assume i: "Suc i < length (map Fin es)"
    then have "es ! i \<le> es ! Suc i" using assms by (simp add: sorted_nth_mono)
    then show "\<not> fl_lt (map Fin es ! Suc i) (map Fin es ! i)" using i by simp
  qed
  from histogram_ok[OF this, of a] show ?thesis by simp
qed

lemma histogram_ok_NaN:
  "\<exists>dens. np_histogram_density a (replicate n NaN) = Inr (dens, replicate n NaN)
           \<and> length dens = n - 1"
proof -
  have "\<forall>i. Suc i < length (replicate n NaN)
          \<longrightarrow> \<not> fl_lt (replicate n NaN ! Suc i) (replicate n NaN ! i)"
    by simp
  from histogram_ok[OF this, of a] show ?thesis by simp
qed

lemma np_nan_extent:
  assumes "data \<noteq> []" "\<forall>v \<in> set data. is_fin v \<or> is_nan v"
  shows "(np_nanmin data = Inr NaN \<and> np_nanmax data = Inr NaN)
       \<or> (\<exists>a b. np_nanmin data = Inr (Fin a) \<and> np_nanmax data = Inr (Fin b) \<and> a \<le> b)"
proof (cases "dropna data = []")
  case True
  then show ?thesis using assms(1) by (simp add: np_nanmin_def np_nanmax_def)
next
  case False
  obtain rs where rs: "dropna data = map Fin rs" using dropna_Fin[OF assms(2)] by blast
  then have ne: "rs \<noteq> []" using False by auto
  have "np_nanmin data = Inr (Fin (Min (set rs)))" "np_nanmax data = Inr (Fin (Max (set rs)))"
    using assms(1) False ne by (simp_all add: np_nanmin_def np_nanmax_def rs np_amin_Fin np_amax_Fin)
  moreover have "Min (set rs) \<le> Max (set rs)" using ne by simp
  ultimately show ?thesis by blast
qed

lemma smooth_data_from_extent:
  assumes "2 \<le> npoints" "0 < sigma"
    and "(case min_arg of None \<Rightarrow> np_nanmin data | Some m \<Rightarrow> Inr m) = Inr mn"
    and "(case max_arg of None \<Rightarrow> np_nanmax data | Some m \<Rightarrow> Inr m) = Inr mx"
    and "(mn = NaN \<and> mx = NaN) \<or> (\<exists>a b. mn = Fin a \<and> mx = Fin b \<and> a \<le> b)"
  shows "\<exists>bins density count_y.
           linspace mn mx npoints = Inr bins
         \<and> np_histogram_density data bins = Inr (density, bins)
         \<and> gaussian_filter1d (map (\<lambda>v. fl_mul v (Fin (real (length data)))) density) sigma
             = Inr count_y
         \<and> smooth_data npoints sigma data min_arg max_arg = Inr (drop 1 bins, count_y)
         \<and> length (drop 1 bins) = nat npoints - 1 \<and> length count_y = nat npoints - 1"
proof -
  have "\<exists>bins density. linspace mn mx npoints = Inr bins \<and> length bins = nat npoints
          \<and> np_histogram_density data bins = Inr (density, bins)
          \<and> length density = nat npoints - 1"
  proof (rule disjE[OF assms(5)])
    assume "mn = NaN \<and> mx = NaN"
    then show ?thesis
      using linspace_NaN[OF assms(1)] histogram_ok_NaN[of data "nat npoints"] by auto
  next
    assume "\<exists>a b. mn = Fin a \<and> mx = Fin b \<and> a \<le> b"
    then obtain a b where ab: "mn = Fin a" "mx = Fin b" "a \<le> b" by blast
    define es where "es = map (lin_edge a b (nat npoints)) [0..<nat npoints]"
    have ls: "linspace mn mx npoints = Inr (map Fin es)"
      using linspace_Fin[of npoints a b] assms(1) by (simp add: ab es_def comp_def)
    have "sorted es" unfolding es_def using ab(3) by (rule sorted_lin_edges)
    from histogram_ok_sorted[OF this, of data] show ?thesis
      using ls by (auto simp: es_def)
  qed
  then obtain bins density where b: "linspace mn mx npoints = Inr bins"
    "length bins = nat npoints" "np_histogram_density data bins = Inr (density, bins)"
    "length density = nat npoints - 1" by blast
  obtain count_y where c:
    "gaussian_filter1d (map (\<lambda>v. fl_mul v (Fin (real (length data)))) density) sigma = Inr count_y"
    "length count_y = length (map (\<lambda>v. fl_mul v (Fin (real (length data)))) density)"
    using gaussian_filter1d_ok[OF assms(2)] by blast
  have "smooth_data npoints sigma data min_arg max_arg = Inr (drop 1 bins, count_y)"
    unfolding smooth_data_def assms(3,4) by (simp add: b(1,3) c(1))
  then show ?thesis using b c by auto
qed

section \<open>Properties of sorting and of the grid\<close>

lemma fl_lt_np_key: "fl_lt a b \<Longrightarrow> np_key a < np_key b"
  by (cases a; cases b) simp_all

lemma np_key_fl_le: "np_key a \<le> np_key b \<Longrightarrow> \<not> is_nan a \<Longrightarrow> \<not> is_nan b \<Longrightarrow> fl_le a b"
  by (cases a; cases b) (auto simp: fl_le_def)

lemma np_sort_props:
  shows "length (np_sort r) = length r" and "set (np_sort r) = set r"
    and "sorted (map np_key (np_sort r))"
    and "sorted_wrt (\<lambda>a b. \<not> fl_lt b a) (np_sort r)"
proof -
  show "length (np_sort r) = length r" "set (np_sort r) = set r"
    and so: "sorted (map np_key (np_sort r))"
    by (simp_all add: np_sort_def)
  have "\<forall>i j. i < j \<longrightarrow> j < length (np_sort r) \<longrightarrow> \<not> fl_lt (np_sort r ! j) (np_sort r ! i)"
  proof (intro allI impI)
    fix i j assume ij: "i < j" "j < length (np_sort r)"
    then have "np_key (np_sort r ! i) \<le> np_key (np_sort r ! j)"
      using sorted_nth_mono[OF so, of i j] by simp
    then show "\<not> fl_lt (np_sort r ! j) (np_sort r ! i)"
      using fl_lt_np_key[of "np_sort r ! j" "np_sort r ! i"] by auto
  qed
  then show "sorted_wrt (\<lambda>a b. \<not> fl_lt b a) (np_sort r)"
    by (simp add: sorted_wrt_iff_nth_less)
qed

lemma np_sort_fl_le:
  assumes "\<forall>v \<in> set r. \<not> is_nan v"
  shows "sorted_wrt fl_le (np_sort r)"
proof -
  have so: "sorted (map np_key (np_sort r))" by (rule np_sort_props(3))
  have "\<forall>i j. i < j \<longrightarrow> j < length (np_sort r) \<longrightarrow> fl_le (np_sort r ! i) (np_sort r ! j)"
  proof (intro allI impI)
    fix i j assume ij: "i < j" "j < length (np_sort r)"
    then have k: "np_key (np_sort r ! i) \<le> np_key (np_sort r ! j)"
      using sorted_nth_mono[OF so, of i j] by simp
    have "i < length (np_sort r)" using ij by simp
    then have "np_sort r ! i \<in> set r" "np_sort r ! j \<in> set r"
      using ij(2) np_sort_props(2)[of r] by (metis nth_mem)+
    then show "fl_le (np_sort r ! i) (np_sort r ! j)" using k assms by (intro np_key_fl_le) auto
  qed
  then show ?thesis by (simp add: sorted_wrt_iff_nth_less)
qed

lemma lin_edge_step:
  "lin_edge a b n (Suc i) - lin_edge a b n i = (b - a) / real (n - 1)"
  by (simp add: lin_edge_def add_divide_distrib distrib_right)

section \<open>Properties of the percentile levels and of the nearest-neighbour interpolation\<close>

lemma sorted_nth0_Min: "sorted s \<Longrightarrow> s \<noteq> [] \<Longrightarrow> s ! 0 = Min (set s)"
  by (cases s) (auto intro!: Min_eqI[symmetric])

lemma sorted_last_Max: "sorted s \<Longrightarrow> s \<noteq> [] \<Longrightarrow> s ! (length s - 1) = Max (set s)"
proof -
  assume a: "sorted s" "s \<noteq> []"
  have "\<forall>x \<in> set s. x \<le> s ! (length s - 1)"
  proof
    fix x assume "x \<in> set s"
    then obtain i where "i < length s" "x = s ! i" by (metis in_set_conv_nth)
    then show "x \<le> s ! (length s - 1)" using a(1) by (simp add: sorted_nth_mono)
  qed
  moreover have "s ! (length s - 1) \<in> set s" using a(2) by simp
  ultimately show ?thesis by (intro Max_eqI[symmetric]) simp_all
qed

lemma np_percentile_0:
  assumes "rs \<noteq> []"
  shows "np_percentile (map Fin rs) 0 = Fin (Min (set rs))"
proof -
  have ne: "sort rs \<noteq> []" using assms by (metis length_0_conv length_sort)
  have "lin_interp (sort rs) 0 = sort rs ! 0" by (simp add: lin_interp_def Let_def)
  also have "\<dots> = Min (set rs)" using sorted_nth0_Min[of "sort rs"] ne by simp
  finally show ?thesis using np_percentile_Fin[OF assms, of 0] by simp
qed

lemma np_percentile_100:
  assumes "rs \<noteq> []"
  shows "np_percentile (map Fin rs) 100 = Fin (Max (set rs))"
proof -
  have ne: "sort rs \<noteq> []" using assms by (metis length_0_conv length_sort)
  define n where "n = length rs"
  have n: "0 < n" using assms by (simp add: n_def)
  have fl: "nat \<lfloor>real (n - 1)\<rfloor> = n - 1" by simp
  have "lin_interp (sort rs) (real (n - 1)) = sort rs ! (n - 1)"
    unfolding lin_interp_def Let_def fl by (simp add: n_def)
  also have "\<dots> = Max (set rs)" using sorted_last_Max[of "sort rs"] ne by (simp add: n_def)
  finally have "lin_interp (sort rs) (real (length rs - 1) * (100 / 100)) = Max (set rs)"
    by (simp add: n_def)
  then show ?thesis using np_percentile_Fin[OF assms, of 100] by simp
qed

lemma length_mid_points: "length (mid_points sx) = length sx - 1"
  by (simp add: mid_points_def)

lemma mid_points_nth:
  "j < length sx - 1 \<Longrightarrow> mid_points sx ! j = sx ! Suc j / 2 + sx ! j / 2"
  by (simp add: mid_points_def nth_tl nth_butlast)

lemma sorted_mid_points:
  assumes "sorted sx"
  shows "sorted (mid_points sx)"
proof -
  have "\<forall>i j. i \<le> j \<longrightarrow> j < length (mid_points sx) \<longrightarrow> mid_points sx ! i \<le> mid_points sx ! j"
  proof (intro allI impI)
    fix i j assume ij: "i \<le> j" "j < length (mid_points sx)"
    then have j: "j < length sx - 1" and i: "i < length sx - 1"
      by (simp_all add: length_mid_points)
    have "sx ! i \<le> sx ! j" "sx ! Suc i \<le> sx ! Suc j"
      using assms ij(1) j by (simp_all add: sorted_nth_mono)
    then show "mid_points sx ! i \<le> mid_points sx ! j"
      using i j by (simp add: mid_points_nth)
  qed
  then show ?thesis by (simp add: sorted_iff_nth_mono)
qed

lemma nearest_pos_props:
  assumes "sorted sx" "sx \<noteq> []"
  shows "nearest_pos sx g < length sx"
    and "\<forall>k < length sx. \<bar>sx ! nearest_pos sx g - g\<bar> \<le> \<bar>sx ! k - g\<bar>"
proof -
  define c where "c = nearest_pos sx g"
  define ms where "ms = mid_points sx"
  have lm: "length ms = length sx - 1" by (simp add: ms_def length_mid_points)
  have cle: "c \<le> length ms" unfolding c_def nearest_pos_def ms_def by (rule length_takeWhile_le)
  then show c: "nearest_pos sx g < length sx" using lm assms(2) by (cases sx) (simp_all add: c_def)
  have below: "\<forall>j < c. ms ! j < g"
  proof (intro allI impI)
    fix j assume "j < c"
    then have "j < length (takeWhile (\<lambda>m. m < g) ms)" by (simp add: c_def nearest_pos_def ms_def)
    then show "ms ! j < g" by (metis nth_mem set_takeWhileD takeWhile_nth)
  qed
  have above: "c < length ms \<longrightarrow> g \<le> ms ! c"
  proof
    assume "c < length ms"
    then have "\<not> ms ! c < g"
      unfolding c_def nearest_pos_def ms_def[symmetric] by (rule nth_length_takeWhile)
    then show "g \<le> ms ! c" by simp
  qed
  show "\<forall>k < length sx. \<bar>sx ! nearest_pos sx g - g\<bar> \<le> \<bar>sx ! k - g\<bar>"
  proof (intro allI impI)
    fix k assume k: "k < length sx"
    have cl: "c < length sx" using c by (simp add: c_def)
    consider "k < c" | "k = c" | "c < k" by linarith
    then have "\<bar>sx ! c - g\<bar> \<le> \<bar>sx ! k - g\<bar>"
    proof cases
      case 1
      then obtain c' where c': "c = Suc c'" by (cases c) auto
      have "c' < c" using c' by simp
      then have "ms ! c' < g" using below by blast
      moreover have "ms ! c' = sx ! c / 2 + sx ! c' / 2"
        using cl c' by (simp add: ms_def mid_points_nth)
      ultimately have m: "sx ! c / 2 + sx ! c' / 2 < g" by simp
      have "sx ! k \<le> sx ! c'" using assms(1) 1 c' cl by (simp add: sorted_nth_mono)
      moreover have "sx ! c' \<le> sx ! c" using assms(1) c' cl by (simp add: sorted_nth_mono)
      ultimately show ?thesis using m by linarith
    next
      case 2
      then show ?thesis by simp
    next
      case 3
      then have clt: "c < length ms" using k lm by simp
      then have "g \<le> ms ! c" using above by blast
      moreover have "ms ! c = sx ! Suc c / 2 + sx ! c / 2"
        using clt lm by (simp add: ms_def mid_points_nth)
      ultimately have m: "g \<le> sx ! Suc c / 2 + sx ! c / 2" by simp
      have "sx ! Suc c \<le> sx ! k" using assms(1) 3 k by (simp add: sorted_nth_mono)
      moreover have "sx ! c \<le> sx ! Suc c" using assms(1) clt lm by (simp add: sorted_nth_mono)
      ultimately show ?thesis using m by linarith
    qed
    then show "\<bar>sx ! nearest_pos sx g - g\<bar> \<le> \<bar>sx ! k - g\<bar>" by (simp add: c_def)
  qed
qed

lemma insort_key_Fin_pair:
  "insort_key (\<lambda>p. np_key (fst p)) (Fin r, y) (map (\<lambda>(r, y). (Fin r, y)) zs)
   = map (\<lambda>(r, y). (Fin r, y)) (insort_key fst (r, y) zs)"
  by (induction zs) auto

lemma sort_key_Fin_pair:
  "sort_key (\<lambda>p. np_key (fst p)) (map (\<lambda>(r, y). (Fin r, y)) zs)
   = map (\<lambda>(r, y). (Fin r, y)) (sort_key fst zs)"
  by (induction zs) (auto simp: insort_key_Fin_pair)

lemma zip_map_Fin: "zip (map Fin rs) Y = map (\<lambda>(r, y). (Fin r, y)) (zip rs Y)"
  by (simp add: zip_map1)

lemma sorted_points_props:
  assumes "length rs = length Y"
  shows "length (sorted_points rs Y) = length rs"
    and "set (sorted_points rs Y) = set (zip rs Y)"
    and "sorted (map fst (sorted_points rs Y))"
    and "set (map fst (sorted_points rs Y)) = set rs"
proof -
  show "length (sorted_points rs Y) = length rs" using assms by (simp add: sorted_points_def)
  show s: "set (sorted_points rs Y) = set (zip rs Y)" by (simp add: sorted_points_def)
  show "sorted (map fst (sorted_points rs Y))" by (simp add: sorted_points_def)
  have "set (map fst (sorted_points rs Y)) = fst ` set (zip rs Y)" using s by simp
  also have "\<dots> = set (map fst (zip rs Y))" by simp
  also have "\<dots> = set rs" using assms by simp
  finally show "set (map fst (sorted_points rs Y)) = set rs" .
qed

lemma interp1d_nearest_Fin:
  assumes "length rs = length Y" "2 \<le> length rs"
  defines "sx \<equiv> map fst (sorted_points rs Y)"
  defines "sy \<equiv> map snd (sorted_points rs Y)"
  shows "interp1d_nearest (map Fin rs) Y =
           Inr (\<lambda>x_new.
             if list_ex (\<lambda>v. fl_lt v (Fin (hd sx)) \<or> fl_lt (Fin (last sx)) v) x_new
             then Inl ValueError
             else Inr (map (\<lambda>v. sy ! min (searchsorted_left (map Fin (mid_points sx)) v)
                                     (length sx - 1)) x_new))"
proof -
  define pts where "pts = sorted_points rs Y"
  have ne: "pts \<noteq> []"
    using assms(2) sorted_points_props(1)[OF assms(1)] by (auto simp: pts_def)
  have sxne: "sx \<noteq> []" using ne by (simp add: sx_def pts_def)
  have p: "sort_key (\<lambda>p. np_key (fst p)) (zip (map Fin rs) Y) = map (\<lambda>(r, y). (Fin r, y)) pts"
    by (simp add: zip_map_Fin sort_key_Fin_pair pts_def sorted_points_def)
  have xs: "map fst (map (\<lambda>(r, y). (Fin r, y)) pts) = map Fin sx"
    by (simp add: sx_def pts_def comp_def case_prod_unfold)
  have ys: "map snd (map (\<lambda>(r, y). (Fin r, y)) pts) = sy"
    by (simp add: sy_def pts_def comp_def case_prod_unfold)
  have hv: "map (\<lambda>v. fl_div v (Fin 2)) (map Fin sx) = map Fin (map (\<lambda>r. r / 2) sx)"
    by simp
  have bd: "map (\<lambda>(a, b). fl_add a b)
              (zip (tl (map Fin (map (\<lambda>r. r / 2) sx))) (butlast (map Fin (map (\<lambda>r. r / 2) sx))))
            = map Fin (mid_points sx)"
    by (simp add: mid_points_def zip_map_map comp_def case_prod_unfold flip: map_tl map_butlast)
  have hd: "hd (map Fin sx) = Fin (hd sx)" using sxne by (simp add: hd_map)
  have la: "last (map Fin sx) = Fin (last sx)" using sxne by (simp add: last_map)
  show ?thesis
    unfolding interp1d_nearest_def Let_def p xs ys hv bd hd la length_map
    using assms(1,2) by (simp add: sx_def pts_def cong: if_cong)
qed

lemma nearest_values:
  assumes "length rs = length Y" "2 \<le> length rs"
    and "interp1d_nearest (map Fin rs) Y = Inr f"
    and "\<forall>g \<in> set grid. Min (set rs) \<le> g \<and> g \<le> Max (set rs)"
  shows "\<exists>y_int. f (map Fin grid) = Inr y_int \<and> length y_int = length grid
           \<and> (\<forall>i < length grid. \<exists>k < length rs. y_int ! i = Y ! k
                 \<and> (\<forall>k' < length rs. \<bar>rs ! k - grid ! i\<bar> \<le> \<bar>rs ! k' - grid ! i\<bar>))"
proof -
  define pts where "pts = sorted_points rs Y"
  define sx where "sx = map fst pts"
  define sy where "sy = map snd pts"
  note sp = sorted_points_props[OF assms(1), folded pts_def]
  have so: "sorted sx" using sp(3) by (simp add: sx_def)
  have st: "set sx = set rs" using sp(4) by (simp add: sx_def)
  have ln: "length sx = length rs" using sp(1) by (simp add: sx_def)
  have sxne: "sx \<noteq> []" using ln assms(2) by auto
  have hdm: "hd sx = Min (set rs)"
    using sorted_nth0_Min[OF so sxne] sxne st by (simp add: hd_conv_nth)
  have lam: "last sx = Max (set rs)"
    using sorted_last_Max[OF so sxne] sxne st by (simp add: last_conv_nth)
  have f: "f = (\<lambda>x_new.
             if list_ex (\<lambda>v. fl_lt v (Fin (hd sx)) \<or> fl_lt (Fin (last sx)) v) x_new
             then Inl ValueError
             else Inr (map (\<lambda>v. sy ! min (searchsorted_left (map Fin (mid_points sx)) v)
                                     (length sx - 1)) x_new))"
    using interp1d_nearest_Fin[OF assms(1,2)] assms(3) unfolding sx_def sy_def pts_def by simp
  have inb: "\<not> list_ex (\<lambda>v. fl_lt v (Fin (hd sx)) \<or> fl_lt (Fin (last sx)) v) (map Fin grid)"
    using assms(4) by (auto simp: list_ex_iff hdm lam)
  have pos: "\<And>g. min (searchsorted_left (map Fin (mid_points sx)) (Fin g)) (length sx - Suc 0)
                 = nearest_pos sx g"
  proof -
    fix g
    have "searchsorted_left (map Fin (mid_points sx)) (Fin g) = nearest_pos sx g"
      by (simp add: searchsorted_left_Fin filter_less_sorted[OF sorted_mid_points[OF so]]
          nearest_pos_def)
    moreover have "nearest_pos sx g \<le> length sx - 1"
      using length_takeWhile_le[of "\<lambda>m. m < g" "mid_points sx"]
      by (simp add: nearest_pos_def length_mid_points)
    ultimately show "min (searchsorted_left (map Fin (mid_points sx)) (Fin g))
                 (length sx - Suc 0) = nearest_pos sx g" by simp
  qed
  define y_int where "y_int = map (\<lambda>g. sy ! nearest_pos sx g) grid"
  have res: "f (map Fin grid) = Inr y_int"
    unfolding f using inb by (simp add: pos y_int_def comp_def)
  have near: "\<forall>i < length grid. \<exists>k < length rs. y_int ! i = Y ! k
                 \<and> (\<forall>k' < length rs. \<bar>rs ! k - grid ! i\<bar> \<le> \<bar>rs ! k' - grid ! i\<bar>)"
  proof (intro allI impI)
    fix i assume i: "i < length grid"
    define g where "g = grid ! i"
    define c where "c = nearest_pos sx g"
    note np = nearest_pos_props[OF so sxne, of g, folded c_def]
    have cl: "c < length pts" using np(1) by (simp add: sx_def)
    then have "pts ! c \<in> set (zip rs Y)" using sp(2) by (metis nth_mem)
    then obtain k where k: "k < length rs" "pts ! c = (rs ! k, Y ! k)"
      using assms(1) by (auto simp: set_zip)
    have sxc: "sx ! c = rs ! k" and syc: "sy ! c = Y ! k"
      using cl k(2) by (simp_all add: sx_def sy_def)
    have yi: "y_int ! i = Y ! k" using i syc by (simp add: y_int_def g_def c_def)
    have "\<forall>k' < length rs. \<bar>rs ! k - g\<bar> \<le> \<bar>rs ! k' - g\<bar>"
    proof (intro allI impI)
      fix k' assume "k' < length rs"
      then have "rs ! k' \<in> set sx" using st by simp
      then obtain j where "j < length sx" "sx ! j = rs ! k'" by (metis in_set_conv_nth)
      then show "\<bar>rs ! k - g\<bar> \<le> \<bar>rs ! k' - g\<bar>" using np(2) sxc by metis
    qed
    then show "\<exists>k < length rs. y_int ! i = Y ! k
                 \<and> (\<forall>k' < length rs. \<bar>rs ! k - grid ! i\<bar> \<le> \<bar>rs ! k' - grid ! i\<bar>)"
      using k(1) yi unfolding g_def by blast
  qed
  show ?thesis using res near by (intro exI[of _ y_int]) (simp add: y_int_def)
qed

lemma strictly_monotonic_extent:
  assumes "sorted_wrt (\<lambda>a b. a < b) rs \<or> sorted_wrt (\<lambda>a b. b < a) rs" "2 \<le> length (rs::real list)"
  shows "Min (set rs) < Max (set rs)"
proof -
  have l: "0 < length rs" "1 < length rs" using assms(2) by linarith+
  have "rs ! 0 \<noteq> rs ! 1"
    using assms(1) l(2) sorted_wrt_nth_less[of _ rs 0 1] by fastforce
  moreover have "rs ! 0 \<in> set rs" "rs ! 1 \<in> set rs" using l by simp_all
  ultimately have "Min (set rs) \<noteq> Max (set rs)"
    by (metis List.finite_set Max_ge Min_le order_antisym)
  moreover have "Min (set rs) \<le> Max (set rs)" using l(1) by simp
  ultimately show ?thesis by simp
qed

section \<open>QuantileSummarizer\<close>

text \<open>
  C3. For a sample vector of finite values and NaNs that is non-empty after dropping the
  NaNs, the summary is returned and satisfies
  \<open>lowerfence \<le> q1 \<le> median \<le> q3 \<le> upperfence\<close>; both fences lie between the reported
  minimum and maximum, which are the least and the greatest of the observed values. The
  lower fence is the raw fence \<open>q1 - 1.5 * iqr\<close> clipped up to the minimum, the upper fence
  the raw fence \<open>q3 + 1.5 * iqr\<close> clipped down to the maximum.
\<close>

theorem boxplot_fences_ordered:
  assumes "\<forall>v \<in> set V. is_fin v \<or> is_nan v" and "dropna V \<noteq> []"
  shows "\<exists>r. precompute_boxplot_values V = Inr r
           \<and> fl_le (lowerfence r) (q1 r) \<and> fl_le (q1 r) (median r)
           \<and> fl_le (median r) (q3 r) \<and> fl_le (q3 r) (upperfence r)
           \<and> fl_le (bv_min r) (lowerfence r) \<and> fl_le (lowerfence r) (bv_max r)
           \<and> fl_le (bv_min r) (upperfence r) \<and> fl_le (upperfence r) (bv_max r)
           \<and> bv_min r \<in> set V \<and> bv_max r \<in> set V
           \<and> (\<forall>v \<in> set (dropna V). fl_le (bv_min r) v \<and> fl_le v (bv_max r))
           \<and> lowerfence r
               = py_max2 (fl_sub (q1 r) (fl_mul (Fin (3 / 2)) (fl_sub (q3 r) (q1 r)))) (bv_min r)
           \<and> upperfence r
               = py_min2 (fl_add (q3 r) (fl_mul (Fin (3 / 2)) (fl_sub (q3 r) (q1 r)))) (bv_max r)"
proof -
  obtain rs where rs: "dropna V = map Fin rs" using dropna_Fin[OF assms(1)] by blast
  have ne: "rs \<noteq> []" using assms(2) rs by auto
  define n1 where "n1 = real (length rs - 1)"
  define a where "a = lin_interp (sort rs) (n1 * (1 / 4))"
  define m where "m = lin_interp (sort rs) (n1 * (1 / 2))"
  define b where "b = lin_interp (sort rs) (n1 * (3 / 4))"
  define mn where "mn = Min (set rs)"
  define mx where "mx = Max (set rs)"
  have qa: "quantile (map Fin rs) (1 / 4) = Fin a"
    unfolding a_def n1_def by (rule quantile_Fin[OF ne]) simp_all
  have qm: "quantile (map Fin rs) (1 / 2) = Fin m"
    unfolding m_def n1_def by (rule quantile_Fin[OF ne]) simp_all
  have qb: "quantile (map Fin rs) (3 / 4) = Fin b"
    unfolding b_def n1_def by (rule quantile_Fin[OF ne]) simp_all
  have am: "a \<le> m" unfolding a_def m_def n1_def
    by (rule lin_interp_quantile_mono[OF ne]) simp_all
  have mb: "m \<le> b" unfolding b_def m_def n1_def
    by (rule lin_interp_quantile_mono[OF ne]) simp_all
  have mna: "mn \<le> a" unfolding a_def mn_def n1_def
    by (rule lin_interp_in_range(1)[OF ne]) simp_all
  have bmx: "b \<le> mx" unfolding b_def mx_def n1_def
    by (rule lin_interp_in_range(2)[OF ne]) simp_all
  have mnin: "mn \<in> set rs" unfolding mn_def using ne by (intro Min_in) simp_all
  have mxin: "mx \<in> set rs" unfolding mx_def using ne by (intro Max_in) simp_all
  have sub: "set (dropna V) \<subseteq> set V" by (auto simp: dropna_def)
  have inV: "Fin mn \<in> set V" "Fin mx \<in> set V" using mnin mxin rs sub by auto
  define r where "r = \<lparr>bv_min = Fin mn,
      lowerfence = Fin (max (a - 3 / 2 * (b - a)) mn), q1 = Fin a, median = Fin m, q3 = Fin b,
      upperfence = Fin (min (b + 3 / 2 * (b - a)) mx), bv_max = Fin mx,
      notchspan = fl_div (Fin (157 / 100 * (b - a))) (Fin (sqrt (real (length rs))))\<rparr>"
  have res: "precompute_boxplot_values V = Inr r"
    using ne
    by (simp add: precompute_boxplot_values_def rs Let_def qa qm qb py_min_Fin py_max_Fin
        fl_sub_def py_min2_Fin py_max2_Fin r_def mn_def mx_def del: fl_div.simps)
  have bnd: "\<forall>v \<in> set (dropna V). fl_le (Fin mn) v \<and> fl_le v (Fin mx)"
    unfolding rs mn_def mx_def by (auto simp: fl_le_Fin)
  have ord: "fl_le (lowerfence r) (q1 r)" "fl_le (q1 r) (median r)"
    "fl_le (median r) (q3 r)" "fl_le (q3 r) (upperfence r)"
    "fl_le (bv_min r) (lowerfence r)" "fl_le (lowerfence r) (bv_max r)"
    "fl_le (bv_min r) (upperfence r)" "fl_le (upperfence r) (bv_max r)"
  proof -
    have ab: "a \<le> b" using am mb by linarith
    then have i: "0 \<le> 3 / 2 * (b - a)" by simp
    show "fl_le (lowerfence r) (q1 r)" using i mna by (simp add: r_def fl_le_Fin)
    show "fl_le (q1 r) (median r)" using am by (simp add: r_def fl_le_Fin)
    show "fl_le (median r) (q3 r)" using mb by (simp add: r_def fl_le_Fin)
    show "fl_le (q3 r) (upperfence r)" using i bmx by (simp add: r_def fl_le_Fin)
    show "fl_le (bv_min r) (lowerfence r)" by (simp add: r_def fl_le_Fin)
    show "fl_le (upperfence r) (bv_max r)" by (simp add: r_def fl_le_Fin)
    have "a - 3 / 2 * (b - a) \<le> mx" using i ab bmx by linarith
    moreover have "mn \<le> mx" using mna ab bmx by linarith
    ultimately show "fl_le (lowerfence r) (bv_max r)" by (simp add: r_def fl_le_Fin)
    have "mn \<le> b + 3 / 2 * (b - a)" using i ab mna by linarith
    moreover have "mn \<le> mx" using mna ab bmx by linarith
    ultimately show "fl_le (bv_min r) (upperfence r)" by (simp add: r_def fl_le_Fin)
  qed
  have clip: "lowerfence r
               = py_max2 (fl_sub (q1 r) (fl_mul (Fin (3 / 2)) (fl_sub (q3 r) (q1 r)))) (bv_min r)"
    "upperfence r
               = py_min2 (fl_add (q3 r) (fl_mul (Fin (3 / 2)) (fl_sub (q3 r) (q1 r)))) (bv_max r)"
    by (simp_all add: r_def fl_sub_def py_max2_Fin py_min2_Fin)
  show ?thesis
    using res ord inV bnd clip by (intro exI[of _ r]) (simp add: r_def)
qed

theorem boxplot_fences_ordered_witness:
  "dropna [Fin 3, NaN, Fin 1] \<noteq> []
   \<and> (\<exists>r. precompute_boxplot_values [Fin 3, NaN, Fin 1] = Inr r
           \<and> fl_le (lowerfence r) (q1 r) \<and> fl_le (q1 r) (median r)
           \<and> fl_le (median r) (q3 r) \<and> fl_le (q3 r) (upperfence r)
           \<and> fl_le (bv_min r) (lowerfence r) \<and> fl_le (upperfence r) (bv_max r))"
proof -
  have h1: "\<forall>v \<in> set [Fin 3, NaN, Fin 1]. is_fin v \<or> is_nan v" by simp
  have h2: "dropna [Fin 3, NaN, Fin 1] \<noteq> []" by (simp add: dropna_def)
  from boxplot_fences_ordered[OF h1 h2] obtain r where
    "precompute_boxplot_values [Fin 3, NaN, Fin 1] = Inr r
           \<and> fl_le (lowerfence r) (q1 r) \<and> fl_le (q1 r) (median r)
           \<and> fl_le (median r) (q3 r) \<and> fl_le (q3 r) (upperfence r)
           \<and> fl_le (bv_min r) (lowerfence r) \<and> fl_le (upperfence r) (bv_max r)"
    by blast
  then show ?thesis using h2 by blast
qed

text \<open>
  C4. On \<open>[1, 2, 3, 4, 5, 100]\<close> the summary has \<open>q1 = 2.25\<close> and \<open>q3 = 4.75\<close>, so the
  interquartile range is \<open>2.5\<close> and the raw fences are \<open>8.5\<close> and \<open>-1.5\<close>; the reported
  upper fence is \<open>min(8.5, 100) = 8.5\<close> and the reported lower fence is
  \<open>max(-1.5, 1) = 1\<close>.
\<close>

theorem boxplot_outlier_scenario:
  "precompute_boxplot_values [Fin 1, Fin 2, Fin 3, Fin 4, Fin 5, Fin 100] =
     Inr \<lparr>bv_min = Fin 1, lowerfence = Fin 1, q1 = Fin (225 / 100), median = Fin (35 / 10),
          q3 = Fin (475 / 100), upperfence = Fin (85 / 10), bv_max = Fin 100,
          notchspan = Fin (157 / 100 * (25 / 10) / sqrt 6)\<rparr>
   \<and> fl_sub (Fin (475 / 100)) (Fin (225 / 100)) = Fin (25 / 10)
   \<and> fl_add (Fin (475 / 100)) (fl_mul (Fin (3 / 2)) (Fin (25 / 10))) = Fin (85 / 10)
   \<and> fl_sub (Fin (225 / 100)) (fl_mul (Fin (3 / 2)) (Fin (25 / 10))) = Fin (- (15 / 10))
   \<and> py_min2 (Fin (85 / 10)) (Fin 100) = Fin (85 / 10)
   \<and> py_max2 (Fin (- (15 / 10))) (Fin 1) = Fin 1"
proof -
  have s: "np_sort [Fin 1, Fin 2, Fin 3, Fin 4, Fin 5, Fin 100]
           = [Fin 1, Fin 2, Fin 3, Fin 4, Fin 5, Fin 100]"
    by (simp add: np_sort_def)
  have a: "quantile [Fin 1, Fin 2, Fin 3, Fin 4, Fin 5, Fin 100] (1 / 4) = Fin (9 / 4)"
    by (simp add: quantile_def np_percentile_def s Let_def lerp_def fl_sub_def)
  have m: "quantile [Fin 1, Fin 2, Fin 3, Fin 4, Fin 5, Fin 100] (1 / 2) = Fin (7 / 2)"
    by (simp add: quantile_def np_percentile_def s Let_def lerp_def fl_sub_def)
  have b: "quantile [Fin 1, Fin 2, Fin 3, Fin 4, Fin 5, Fin 100] (3 / 4) = Fin (19 / 4)"
    by (simp add: quantile_def np_percentile_def s Let_def lerp_def fl_sub_def)
  show ?thesis
    by (simp add: precompute_boxplot_values_def dropna_def Let_def a m b fl_sub_def
        py_min2_def py_max2_def)
qed

text \<open>
  C5. A sample vector that is empty after dropping the NaNs (the empty vector, or NaNs
  only) gives the all-zero summary, not an error.
\<close>

theorem boxplot_empty_is_zero:
  "dropna V = [] \<Longrightarrow>
   precompute_boxplot_values V =
     Inr \<lparr>bv_min = Fin 0, lowerfence = Fin 0, q1 = Fin 0, median = Fin 0, q3 = Fin 0,
          upperfence = Fin 0, bv_max = Fin 0, notchspan = Fin 0\<rparr>"
  by (simp add: precompute_boxplot_values_def zero_boxplot_values_def)

theorem boxplot_empty_is_zero_witness:
  "dropna [NaN, NaN] = []
   \<and> precompute_boxplot_values [NaN, NaN] =
     Inr \<lparr>bv_min = Fin 0, lowerfence = Fin 0, q1 = Fin 0, median = Fin 0, q3 = Fin 0,
          upperfence = Fin 0, bv_max = Fin 0, notchspan = Fin 0\<rparr>
   \<and> dropna [] = []"
proof -
  have h: "dropna [NaN, NaN] = []" by (simp add: dropna_def)
  show ?thesis using h boxplot_empty_is_zero[OF h] by (simp add: dropna_def)
qed

section \<open>TimeBinner\<close>

text \<open>
  C2 (amended). For a non-empty vector of finite times and at least two bins, every
  observation is assigned the index of the least bin edge that is greater than or equal
  to its time in hours (an observation exactly on an edge gets that edge), and, before
  smoothing, the five rows hold at each edge position the percentiles at the levels 0, 25,
  50, 75 and 100 of the observations grouped under that edge value, or NaN when there are
  none. For finite observations the first row is their minimum, the last their maximum,
  and every row the linear interpolation between the two order statistics around the
  virtual index \<open>(n - 1) * level / 100\<close>.
\<close>

theorem time_binner_assignment_and_bands:
  assumes "time_series \<noteq> []" and "\<forall>s \<in> set time_series. is_fin s" and "2 \<le> time_bins"
  shows "\<exists>x idx d y.
           over_time_bins data_series time_series time_bins = Inr (x, idx, d)
         \<and> over_time_percentiles data_series time_series time_bins = Inr (x, y)
         \<and> length x = nat time_bins \<and> length idx = length time_series \<and> length y = 5
         \<and> (\<forall>k < length time_series.
               idx ! k < length x
             \<and> fl_le (fl_div (time_series ! k) (Fin 3600)) (x ! (idx ! k))
             \<and> (\<forall>j < length x. fl_le (fl_div (time_series ! k) (Fin 3600)) (x ! j)
                    \<longrightarrow> fl_le (x ! (idx ! k)) (x ! j)))
         \<and> (\<forall>j < length x. \<forall>i < 5.
               y ! i ! j =
                 (if obs_of x (zip idx data_series) (x ! j) = [] then NaN
                  else np_percentile (obs_of x (zip idx data_series) (x ! j))
                         ([0, 25, 50, 75, 100] ! i)))
         \<and> (\<forall>j < length x. \<forall>rs.
               obs_of x (zip idx data_series) (x ! j) = map Fin rs \<and> rs \<noteq> [] \<longrightarrow>
                 y ! 0 ! j = Fin (Min (set rs)) \<and> y ! 4 ! j = Fin (Max (set rs))
               \<and> (\<forall>i < 5. y ! i ! j =
                     Fin (lin_interp (sort rs)
                            (real (length rs - 1) * ([0, 25, 50, 75, 100] ! i / 100)))))"
proof -
  from time_binner_stages[OF assms, of data_series]
  obtain x idx d y where r:
    "over_time_bins data_series time_series time_bins = Inr (x, idx, d)"
    "over_time_percentiles data_series time_series time_bins = Inr (x, y)"
    "length x = nat time_bins" "length idx = length time_series" "length y = 5"
    "\<forall>k < length time_series.
               idx ! k < length x
             \<and> fl_le (fl_div (time_series ! k) (Fin 3600)) (x ! (idx ! k))
             \<and> (\<forall>j < length x. fl_le (fl_div (time_series ! k) (Fin 3600)) (x ! j)
                    \<longrightarrow> fl_le (x ! (idx ! k)) (x ! j))"
    "\<forall>i < 5. \<forall>j < length x.
               y ! i ! j =
                 (if obs_of x (zip idx data_series) (x ! j) = [] then NaN
                  else np_percentile (obs_of x (zip idx data_series) (x ! j)) (percentiles ! i))"
    by blast
  have lv: "percentiles = [0, 25, 50, 75, 100]" by (simp add: percentiles_def)
  have rows: "\<forall>j < length x. \<forall>i < 5.
               y ! i ! j =
                 (if obs_of x (zip idx data_series) (x ! j) = [] then NaN
                  else np_percentile (obs_of x (zip idx data_series) (x ! j))
                         ([0, 25, 50, 75, 100] ! i))"
    using r(7) unfolding lv by blast
  have vals: "\<forall>j < length x. \<forall>rs.
               obs_of x (zip idx data_series) (x ! j) = map Fin rs \<and> rs \<noteq> [] \<longrightarrow>
                 y ! 0 ! j = Fin (Min (set rs)) \<and> y ! 4 ! j = Fin (Max (set rs))
               \<and> (\<forall>i < 5. y ! i ! j =
                     Fin (lin_interp (sort rs)
                            (real (length rs - 1) * ([0, 25, 50, 75, 100] ! i / 100))))"
  proof (intro allI impI)
    fix j rs
    assume j: "j < length x"
      and o: "obs_of x (zip idx data_series) (x ! j) = map Fin rs \<and> rs \<noteq> []"
    then have ne: "rs \<noteq> []" and om: "obs_of x (zip idx data_series) (x ! j) = map Fin rs"
      by simp_all
    have row: "\<forall>i < 5. y ! i ! j = np_percentile (map Fin rs) ([0, 25, 50, 75, 100] ! i)"
      using rows j om ne by simp
    have r0: "y ! 0 ! j = Fin (Min (set rs))" using row np_percentile_0[OF ne] by simp
    have r4: "y ! 4 ! j = Fin (Max (set rs))" using row np_percentile_100[OF ne] by simp
    have ri: "\<forall>i < 5. y ! i ! j =
                     Fin (lin_interp (sort rs)
                            (real (length rs - 1) * ([0, 25, 50, 75, 100] ! i / 100)))"
    proof (intro allI impI)
      fix i :: nat assume i: "i < 5"
      then have "i = 0 \<or> i = 1 \<or> i = 2 \<or> i = 3 \<or> i = 4" by linarith
      then have b: "(0::real) \<le> [0, 25, 50, 75, 100] ! i" "[0, 25, 50, 75, 100] ! i \<le> (100::real)"
        by auto
      show "y ! i ! j = Fin (lin_interp (sort rs)
                            (real (length rs - 1) * ([0, 25, 50, 75, 100] ! i / 100)))"
        using row i np_percentile_Fin[OF ne b] by simp
    qed
    show "y ! 0 ! j = Fin (Min (set rs)) \<and> y ! 4 ! j = Fin (Max (set rs))
               \<and> (\<forall>i < 5. y ! i ! j =
                     Fin (lin_interp (sort rs)
                            (real (length rs - 1) * ([0, 25, 50, 75, 100] ! i / 100))))"
      using r0 r4 ri by blast
  qed
  show ?thesis
    using r(1,2,3,4,5,6) rows vals by blast
qed

theorem time_binner_assignment_and_bands_witness:
  "over_time_bins [Fin 10, Fin 20, Fin 30, Fin 40] [Fin 0, Fin 3600, Fin 7200, Fin 10800] 3
      = Inr ([Fin 0, Fin (3 / 2), Fin 3], [0, 1, 2, 2],
             [(Fin 0, [Fin 10]), (Fin (3 / 2), [Fin 20]), (Fin 3, [Fin 30, Fin 40])])
   \<and> over_time_percentiles [Fin 10, Fin 20, Fin 30, Fin 40]
        [Fin 0, Fin 3600, Fin 7200, Fin 10800] 3
      = Inr ([Fin 0, Fin (3 / 2), Fin 3],
             [[Fin 10, Fin 20, Fin 30], [Fin 10, Fin 20, Fin (65 / 2)],
              [Fin 10, Fin 20, Fin 35], [Fin 10, Fin 20, Fin (75 / 2)],
              [Fin 10, Fin 20, Fin 40]])
   \<and> (\<exists>x idx d y.
        over_time_bins [Fin 10, Fin 20, Fin 30, Fin 40] [Fin 0, Fin 3600, Fin 7200, Fin 10800] 3
          = Inr (x, idx, d)
      \<and> over_time_percentiles [Fin 10, Fin 20, Fin 30, Fin 40]
            [Fin 0, Fin 3600, Fin 7200, Fin 10800] 3 = Inr (x, y)
      \<and> length x = 3 \<and> length idx = 4 \<and> length y = 5
      \<and> idx ! 3 < length x \<and> fl_le (fl_div (Fin 10800) (Fin 3600)) (x ! (idx ! 3))
      \<and> y ! 2 ! 2 = np_percentile (obs_of x (zip idx [Fin 10, Fin 20, Fin 30, Fin 40]) (x ! 2)) 50)"
proof -
  let ?V = "[Fin 10, Fin 20, Fin 30, Fin 40]"
  let ?T = "[Fin 0, Fin 3600, Fin 7200, Fin 10800]"
  have h1: "?T \<noteq> []" by simp
  have h2: "\<forall>s \<in> set ?T. is_fin s" by simp
  have h3: "(2::int) \<le> 3" by simp
  have e1: "over_time_bins ?V ?T 3
      = Inr ([Fin 0, Fin (3 / 2), Fin 3], [0, 1, 2, 2],
             [(Fin 0, [Fin 10]), (Fin (3 / 2), [Fin 20]), (Fin 3, [Fin 30, Fin 40])])"
    by (simp add: tb_eval)
  have e2: "over_time_percentiles ?V ?T 3
      = Inr ([Fin 0, Fin (3 / 2), Fin 3],
             [[Fin 10, Fin 20, Fin 30], [Fin 10, Fin 20, Fin (65 / 2)],
              [Fin 10, Fin 20, Fin 35], [Fin 10, Fin 20, Fin (75 / 2)],
              [Fin 10, Fin 20, Fin 40]])"
    by (simp add: tb_eval)
  note t = time_binner_assignment_and_bands[OF h1 h2 h3, of ?V]
  from t obtain x idx d y where full:
    "over_time_bins ?V ?T 3 = Inr (x, idx, d)
         \<and> over_time_percentiles ?V ?T 3 = Inr (x, y)
         \<and> length x = nat 3 \<and> length idx = length ?T \<and> length y = 5
         \<and> (\<forall>k < length ?T.
               idx ! k < length x
             \<and> fl_le (fl_div (?T ! k) (Fin 3600)) (x ! (idx ! k))
             \<and> (\<forall>j < length x. fl_le (fl_div (?T ! k) (Fin 3600)) (x ! j)
                    \<longrightarrow> fl_le (x ! (idx ! k)) (x ! j)))
         \<and> (\<forall>j < length x. \<forall>i < 5.
               y ! i ! j =
                 (if obs_of x (zip idx ?V) (x ! j) = [] then NaN
                  else np_percentile (obs_of x (zip idx ?V) (x ! j))
                         ([0, 25, 50, 75, 100] ! i)))
         \<and> (\<forall>j < length x. \<forall>rs.
               obs_of x (zip idx ?V) (x ! j) = map Fin rs \<and> rs \<noteq> [] \<longrightarrow>
                 y ! 0 ! j = Fin (Min (set rs)) \<and> y ! 4 ! j = Fin (Max (set rs))
               \<and> (\<forall>i < 5. y ! i ! j =
                     Fin (lin_interp (sort rs)
                            (real (length rs - 1) * ([0, 25, 50, 75, 100] ! i / 100)))))"
    by (elim exE)
  note r = full[THEN conjunct1] full[THEN conjunct2, THEN conjunct1]
    full[THEN conjunct2, THEN conjunct2, THEN conjunct1]
    full[THEN conjunct2, THEN conjunct2, THEN conjunct2, THEN conjunct1]
    full[THEN conjunct2, THEN conjunct2, THEN conjunct2, THEN conjunct2, THEN conjunct1]
    full[THEN conjunct2, THEN conjunct2, THEN conjunct2, THEN conjunct2, THEN conjunct2,
      THEN conjunct1]
    full[THEN conjunct2, THEN conjunct2, THEN conjunct2, THEN conjunct2, THEN conjunct2,
      THEN conjunct2, THEN conjunct1]
  have xe: "x = [Fin 0, Fin (3 / 2), Fin 3]" and ie: "idx = [0, 1, 2, 2]"
    using r(1) e1 by simp_all
  have "(3::nat) < length ?T" by simp
  from r(6)[rule_format, OF this]
  have k3: "idx ! 3 < length x \<and> fl_le (fl_div (Fin 10800) (Fin 3600)) (x ! (idx ! 3))"
    by simp
  have "obs_of x (zip idx ?V) (x ! 2) \<noteq> []" by (simp add: xe ie obs_of_def)
  moreover have "(2::nat) < length x" "(2::nat) < 5" using r(3) by simp_all
  ultimately have y22: "y ! 2 ! 2 = np_percentile (obs_of x (zip idx ?V) (x ! 2)) 50"
    using r(7)[rule_format, of 2 2] by simp
  have l: "length x = 3" "length idx = 4" using r(3,4) by simp_all
  have ex: "\<exists>x idx d y.
        over_time_bins ?V ?T 3 = Inr (x, idx, d)
      \<and> over_time_percentiles ?V ?T 3 = Inr (x, y)
      \<and> length x = 3 \<and> length idx = 4 \<and> length y = 5
      \<and> idx ! 3 < length x \<and> fl_le (fl_div (Fin 10800) (Fin 3600)) (x ! (idx ! 3))
      \<and> y ! 2 ! 2 = np_percentile (obs_of x (zip idx ?V) (x ! 2)) 50"
    using r(1,2,5) l k3 y22 by (intro exI[of _ x] exI[of _ idx] exI[of _ d] exI[of _ y] conjI) blast+
  show ?thesis using e1 e2 ex by (intro conjI)
qed

text \<open>
  With a single bin the only edge is the least time: for the times 0 s and 3600 s the
  second observation, at 1 h, has no edge greater than or equal to its time, and the
  edge lookup raises \<^verbatim>\<open>IndexError\<close>.
\<close>

theorem time_binner_single_bin_counterexample:
  "linspace (Fin 0) (Fin 1) 1 = Inr [Fin 0]
   \<and> map (\<lambda>s. fl_div s (Fin 3600)) [Fin 0, Fin 3600] = [Fin 0, Fin 1]
   \<and> \<not> fl_le (Fin 1) (Fin 0)
   \<and> over_time_percentiles [Fin 10, Fin 20] [Fin 0, Fin 3600] 1 = Inl IndexError"
  by (simp add: tb_eval fl_le_def)

text \<open>
  C10 (amended). With at least two bins: for a non-empty vector of finite times the
  digitize step gives every observation an index below the number of bin edges, so the
  edge lookup stays in range; when the time vector holds a NaN, the extent and every bin
  edge are NaN, the digitize step gives every observation the index \<open>len(x)\<close>, and the
  edge lookup fails with \<^verbatim>\<open>IndexError\<close>.
\<close>

theorem digitize_index_in_bounds:
  assumes "time_series \<noteq> []" and "2 \<le> time_bins"
  shows "((\<forall>s \<in> set time_series. is_fin s) \<longrightarrow>
            (\<exists>x idx d. over_time_bins data_series time_series time_bins = Inr (x, idx, d)
               \<and> length x = nat time_bins \<and> length idx = length time_series
               \<and> (\<forall>i \<in> set idx. i < length x)))
       \<and> ((\<exists>s \<in> set time_series. is_nan s) \<longrightarrow>
            digitize_right (map (\<lambda>s. fl_div s (Fin 3600)) time_series)
                (replicate (nat time_bins) NaN)
              = Inr (replicate (length time_series) (nat time_bins))
          \<and> linspace NaN NaN time_bins = Inr (replicate (nat time_bins) NaN)
          \<and> np_amin (map (\<lambda>s. fl_div s (Fin 3600)) time_series) = Inr NaN
          \<and> np_amax (map (\<lambda>s. fl_div s (Fin 3600)) time_series) = Inr NaN
          \<and> (data_series \<noteq> [] \<longrightarrow>
                over_time_bins data_series time_series time_bins = Inl IndexError))"
proof (intro conjI impI)
  assume fin: "\<forall>s \<in> set time_series. is_fin s"
  from time_binner_stages[OF assms(1) fin assms(2), of data_series]
  obtain x idx d where r: "over_time_bins data_series time_series time_bins = Inr (x, idx, d)"
    "length x = nat time_bins" "length idx = length time_series"
    "\<forall>k < length time_series. idx ! k < length x" by blast
  have "\<forall>i \<in> set idx. i < length x" using r(3,4) by (metis in_set_conv_nth)
  then show "\<exists>x idx d. over_time_bins data_series time_series time_bins = Inr (x, idx, d)
               \<and> length x = nat time_bins \<and> length idx = length time_series
               \<and> (\<forall>i \<in> set idx. i < length x)"
    using r(1,2,3) by blast
next
  assume nan: "\<exists>s \<in> set time_series. is_nan s"
  have n2: "2 \<le> nat time_bins" using assms(2) by simp
  show "digitize_right (map (\<lambda>s. fl_div s (Fin 3600)) time_series)
                (replicate (nat time_bins) NaN)
              = Inr (replicate (length time_series) (nat time_bins))"
    using digitize_right_NaN[OF n2, of "map (\<lambda>s. fl_div s (Fin 3600)) time_series"] by simp
  show "linspace NaN NaN time_bins = Inr (replicate (nat time_bins) NaN)"
    using assms(2) by (rule linspace_NaN)
  have "NaN \<in> set (map (\<lambda>s. fl_div s (Fin 3600)) time_series)"
    using nan by (rule hours_has_NaN)
  then show "np_amin (map (\<lambda>s. fl_div s (Fin 3600)) time_series) = Inr NaN"
    and "np_amax (map (\<lambda>s. fl_div s (Fin 3600)) time_series) = Inr NaN"
    by (simp_all add: np_amin_has_NaN np_amax_has_NaN)
  assume "data_series \<noteq> []"
  with nan assms(2) show "over_time_bins data_series time_series time_bins = Inl IndexError"
    by (intro over_time_bins_NaN)
qed

theorem digitize_index_in_bounds_witness:
  "(\<exists>x idx d. over_time_bins [Fin 1, Fin 2] [Fin 0, Fin 3600] 2 = Inr (x, idx, d)
       \<and> length x = 2 \<and> length idx = 2 \<and> (\<forall>i \<in> set idx. i < length x))
   \<and> digitize_right [Fin 0, NaN] (replicate 2 NaN) = Inr [2, 2]
   \<and> over_time_bins [Fin 1, Fin 2] [Fin 0, NaN] 2 = Inl IndexError"
proof -
  have n: "(2::int) \<le> 2" by simp
  have a: "[Fin 0, Fin 3600] \<noteq> []" and b: "[Fin 0, NaN] \<noteq> []" by simp_all
  have fin: "\<forall>s \<in> set [Fin 0, Fin 3600]. is_fin s" by simp
  have nan: "\<exists>s \<in> set [Fin 0, NaN]. is_nan s" by simp
  have d: "[Fin 1, Fin 2] \<noteq> []" by simp
  show ?thesis
    using digitize_index_in_bounds[OF a n, of "[Fin 1, Fin 2]"]
      digitize_index_in_bounds[OF b n, of "[Fin 1, Fin 2]"] fin nan d
    by (simp add: numeral_2_eq_2)
qed

text \<open>
  With a single bin the claim fails both ways: for the times 0 s and 3600 s the only edge
  is 0, the second observation gets index 1 and the lookup raises; with a NaN among the
  times every index is 0 and the lookup succeeds.
\<close>

theorem digitize_single_bin_counterexample:
  "linspace (Fin 0) (Fin 1) 1 = Inr [Fin 0]
   \<and> digitize_right [Fin 0, Fin 1] [Fin 0] = Inr [0, 1]
   \<and> \<not> (1 < length [Fin 0])
   \<and> over_time_bins [Fin 10, Fin 20] [Fin 0, Fin 3600] 1 = Inl IndexError
   \<and> over_time_bins [Fin 10, Fin 20] [Fin 0, NaN] 1
       = Inr ([NaN], [0, 0], [(NaN, [Fin 10]), (NaN, [Fin 20])])"
  by (simp add: tb_eval)

text \<open>
  C1 (amended). For finite times with at least two distinct values, at least two bins and
  a positive \<open>sigma\<close>, the TimeBinner returns five sequences, each of length
  \<open>time_bins\<close>, and an x-axis of \<open>time_bins\<close> strictly increasing bin edges.
\<close>

theorem time_binner_shape:
  assumes "\<forall>s \<in> set time_series. is_fin s"
    and "\<exists>a \<in> set time_series. \<exists>b \<in> set time_series. a \<noteq> b"
    and "2 \<le> time_bins" and "0 < sigma"
  shows "\<exists>x y. over_time_graph data_series time_series time_bins sigma = Inr (x, y)
           \<and> length y = 5 \<and> (\<forall>row \<in> set y. length row = nat time_bins)
           \<and> length x = nat time_bins \<and> sorted_wrt fl_lt x"
proof -
  obtain Ts where Ts: "time_series = map Fin Ts" using all_fin_map[OF assms(1)] by blast
  obtain a b where ab: "a \<in> set Ts" "b \<in> set Ts" "a \<noteq> b" using assms(2) Ts by auto
  then have Tne: "Ts \<noteq> []" by auto
  define hs where "hs = hours Ts"
  have "a / 3600 \<in> set hs" "b / 3600 \<in> set hs" "a / 3600 \<noteq> b / 3600"
    using ab by (auto simp: hs_def hours_def)
  then have "Min (set hs) \<noteq> Max (set hs)"
    by (metis List.finite_set Max_ge Min_le order_antisym)
  moreover have "Min (set hs) \<le> Max (set hs)" using Tne by (simp add: hs_def hours_def)
  ultimately have lt: "Min (set hs) < Max (set hs)" by simp
  have n2: "2 \<le> nat time_bins" using assms(3) by simp
  obtain y where y: "over_time_graph data_series time_series time_bins sigma
               = Inr (map Fin (edges_of hs (nat time_bins)), y)"
    "length y = 5" "\<forall>row \<in> set y. length row = nat time_bins"
    using over_time_graph_finite[OF Tne assms(3,4), of data_series] unfolding Ts hs_def by blast
  have "length (map Fin (edges_of hs (nat time_bins))) = nat time_bins"
    by (simp add: edges_of_def)
  then show ?thesis using y edges_strictly_increasing[OF lt n2] by blast
qed

theorem time_binner_shape_witness:
  "\<exists>x y. over_time_graph [Fin 10, Fin 20, Fin 30, Fin 40]
            [Fin 0, Fin 3600, Fin 7200, Fin 10800] 3 1 = Inr (x, y)
         \<and> length y = 5 \<and> (\<forall>row \<in> set y. length row = 3)
         \<and> length x = 3 \<and> sorted_wrt fl_lt x"
proof -
  have h1: "\<forall>s \<in> set [Fin 0, Fin 3600, Fin 7200, Fin 10800]. is_fin s" by simp
  have h2: "\<exists>a \<in> set [Fin 0, Fin 3600, Fin 7200, Fin 10800].
             \<exists>b \<in> set [Fin 0, Fin 3600, Fin 7200, Fin 10800]. a \<noteq> b"
    by (intro bexI[of _ "Fin 0"] bexI[of _ "Fin 3600"]) simp_all
  have h3: "(2::int) \<le> 3" and h4: "(0::real) < 1" by simp_all
  have n: "nat 3 = 3" by simp
  show ?thesis
    using time_binner_shape[OF h1 h2 h3 h4, of "[Fin 10, Fin 20, Fin 30, Fin 40]"]
    unfolding n .
qed

text \<open>
  For a single read (or reads that all have the same time) every bin edge is that time:
  the x-axis is constant, not strictly increasing.
\<close>

theorem time_binner_single_time_counterexample:
  "xaxis_of (over_time_graph [Fin 1] [Fin 0] 1000 1) = Some (replicate 1000 (Fin 0))
   \<and> \<not> sorted_wrt fl_lt (replicate 1000 (Fin 0))"
proof -
  have "edges_of (hours [0]) (nat 1000) = replicate 1000 0"
    by (simp add: edges_of_def hours_def edges_constant)
  then obtain y where "over_time_graph [Fin 1] [Fin 0] 1000 1 = Inr (replicate 1000 (Fin 0), y)"
    using over_time_graph_finite[of "[0]" 1000 1 "[Fin 1]"] by auto
  then have a: "xaxis_of (over_time_graph [Fin 1] [Fin 0] 1000 1) = Some (replicate 1000 (Fin 0))"
    by (simp add: xaxis_of_def)
  have "\<not> fl_lt (replicate 1000 (Fin 0) ! 0) (replicate 1000 (Fin 0) ! 1)" by simp
  then have b: "\<not> sorted_wrt fl_lt (replicate 1000 (Fin 0))"
    unfolding sorted_wrt_iff_nth_less by (metis length_replicate zero_less_one
        one_less_numeral_iff semiring_norm(76))
  from a b show ?thesis ..
qed

section \<open>Missing values\<close>

text \<open>
  C7 (amended). The QuantileSummarizer drops the NaNs first: its result is that of the
  vector without its NaNs, and its quartiles are the quantiles of that vector. The
  TimeBinner does not: every observation, NaN included, is appended to the list of its
  bin edge and handed to \<^verbatim>\<open>np.percentile\<close>, so a NaN observation makes all five
  percentiles at its bin edge NaN.
\<close>

theorem nan_handling_per_component:
  assumes "time_series \<noteq> []" and "\<forall>s \<in> set time_series. is_fin s" and "2 \<le> time_bins"
    and "length data_series = length time_series"
    and "k < length data_series" and "is_nan (data_series ! k)"
    and "dropna V \<noteq> []"
  shows "precompute_boxplot_values V = precompute_boxplot_values (dropna V)
       \<and> (\<exists>r. precompute_boxplot_values V = Inr r
             \<and> q1 r = quantile (dropna V) (25 / 100)
             \<and> median r = quantile (dropna V) (50 / 100)
             \<and> q3 r = quantile (dropna V) (75 / 100))
       \<and> (\<exists>x idx d y.
             over_time_bins data_series time_series time_bins = Inr (x, idx, d)
           \<and> over_time_percentiles data_series time_series time_bins = Inr (x, y)
           \<and> idx ! k < length x
           \<and> data_series ! k \<in> set (obs_of x (zip idx data_series) (x ! (idx ! k)))
           \<and> (\<forall>i < 5. y ! i ! (idx ! k) = NaN))"
proof -
  from time_binner_stages[OF assms(1,2,3), of data_series]
  obtain x idx d y where r:
    "over_time_bins data_series time_series time_bins = Inr (x, idx, d)"
    "over_time_percentiles data_series time_series time_bins = Inr (x, y)"
    "length idx = length time_series"
    "\<forall>k < length time_series.
               idx ! k < length x
             \<and> fl_le (fl_div (time_series ! k) (Fin 3600)) (x ! (idx ! k))
             \<and> (\<forall>j < length x. fl_le (fl_div (time_series ! k) (Fin 3600)) (x ! j)
                    \<longrightarrow> fl_le (x ! (idx ! k)) (x ! j))"
    "\<forall>i < 5. \<forall>j < length x.
               y ! i ! j =
                 (if obs_of x (zip idx data_series) (x ! j) = [] then NaN
                  else np_percentile (obs_of x (zip idx data_series) (x ! j)) (percentiles ! i))"
    by blast
  have k: "k < length time_series" using assms(4,5) by simp
  have lt: "idx ! k < length x" using r(4) k by blast
  have "fl_le (fl_div (time_series ! k) (Fin 3600)) (x ! (idx ! k))" using r(4) k by blast
  then have "\<not> is_nan (x ! (idx ! k))" by (rule fl_le_not_nan)
  then have eq: "fl_eq (x ! (idx ! k)) (x ! (idx ! k))" by (simp add: fl_eq_iff)
  have "(idx ! k, data_series ! k) \<in> set (zip idx data_series)"
    using k assms(5) r(3) by (metis in_set_zip fst_conv snd_conv)
  then have "(idx ! k, data_series ! k)
       \<in> set (filter (\<lambda>(j, v). fl_eq (x ! j) (x ! (idx ! k))) (zip idx data_series))"
    using eq by simp
  then have mem: "data_series ! k \<in> set (obs_of x (zip idx data_series) (x ! (idx ! k)))"
    unfolding obs_of_def by (metis image_eqI set_map snd_conv)
  have "data_series ! k = NaN" using assms(6) by (cases "data_series ! k") simp_all
  then have "NaN \<in> set (obs_of x (zip idx data_series) (x ! (idx ! k)))" using mem by simp
  then have "\<forall>p. np_percentile (obs_of x (zip idx data_series) (x ! (idx ! k))) p = NaN"
    by (simp add: np_percentile_NaN)
  then have "\<forall>i < 5. y ! i ! (idx ! k) = NaN" using r(5) lt by simp
  then have tb: "\<exists>x idx d y.
             over_time_bins data_series time_series time_bins = Inr (x, idx, d)
           \<and> over_time_percentiles data_series time_series time_bins = Inr (x, y)
           \<and> idx ! k < length x
           \<and> data_series ! k \<in> set (obs_of x (zip idx data_series) (x ! (idx ! k)))
           \<and> (\<forall>i < 5. y ! i ! (idx ! k) = NaN)"
    using r(1,2) lt mem by blast
  show ?thesis
    using precompute_uses_dropna[of V] precompute_quantiles[OF assms(7)] tb by blast
qed

theorem nan_handling_per_component_witness:
  "precompute_boxplot_values [Fin 3, NaN, Fin 1] = precompute_boxplot_values [Fin 3, Fin 1]
   \<and> (\<exists>x idx d y.
         over_time_bins [Fin 1, NaN, Fin 3] [Fin 0, Fin 3600, Fin 3600] 2 = Inr (x, idx, d)
       \<and> over_time_percentiles [Fin 1, NaN, Fin 3] [Fin 0, Fin 3600, Fin 3600] 2 = Inr (x, y)
       \<and> idx ! 1 < length x
       \<and> (\<forall>i < 5. y ! i ! (idx ! 1) = NaN))"
proof -
  have h1: "[Fin 0, Fin 3600, Fin 3600] \<noteq> []" by simp
  have h2: "\<forall>s \<in> set [Fin 0, Fin 3600, Fin 3600]. is_fin s" by simp
  have h3: "(2::int) \<le> 2" by simp
  have h4: "length [Fin 1, NaN, Fin 3] = length [Fin 0, Fin 3600, Fin 3600]" by simp
  have h5: "1 < length [Fin 1, NaN, Fin 3]" by simp
  have h6: "is_nan ([Fin 1, NaN, Fin 3] ! 1)" by simp
  have h7: "dropna [Fin 3, NaN, Fin 1] \<noteq> []" by (simp add: dropna_def)
  have d: "dropna [Fin 3, NaN, Fin 1] = [Fin 3, Fin 1]" by (simp add: dropna_def)
  from nan_handling_per_component[OF h1 h2 h3 h4 h5 h6 h7]
  show ?thesis unfolding d by blast
qed

text \<open>
  The NaN of the second observation reaches the percentile of its bin: the bin at edge 1
  holds \<open>[NaN, 3]\<close> and reports NaN, where the observations without the NaN give 3.
\<close>

theorem nan_reaches_percentile_counterexample:
  "over_time_percentiles [Fin 1, NaN, Fin 3] [Fin 0, Fin 3600, Fin 3600] 2
     = Inr ([Fin 0, Fin 1],
            [[Fin 1, NaN], [Fin 1, NaN], [Fin 1, NaN], [Fin 1, NaN], [Fin 1, NaN]])
   \<and> over_time_percentiles [Fin 1, Fin 3] [Fin 0, Fin 3600] 2
     = Inr ([Fin 0, Fin 1],
            [[Fin 1, Fin 3], [Fin 1, Fin 3], [Fin 1, Fin 3], [Fin 1, Fin 3], [Fin 1, Fin 3]])
   \<and> np_percentile [NaN, Fin 3] 50 = NaN
   \<and> np_percentile (dropna [NaN, Fin 3]) 50 = Fin 3"
  by (simp add: tb_eval dropna_def)

section \<open>DistributionSmoother\<close>

text \<open>
  C6 (amended). For a requested point count \<open>P \<ge> 2\<close> and a positive \<open>sigma\<close>, and either
  a non-empty sample vector of finite values and NaNs with the default range, or any
  sample vector with an explicit finite range \<open>min \<le> max\<close>, the DistributionSmoother
  returns two sequences of length \<open>P - 1\<close>: the histogram edges without the first one,
  and the Gaussian filter applied to the density histogram multiplied by \<open>len(V)\<close>.
\<close>

theorem smooth_data_shape:
  assumes "2 \<le> npoints" and "0 < sigma"
    and "(min_arg = None \<and> max_arg = None \<and> data \<noteq> [] \<and> (\<forall>v \<in> set data. is_fin v \<or> is_nan v))
       \<or> (\<exists>a b. min_arg = Some (Fin a) \<and> max_arg = Some (Fin b) \<and> a \<le> b)"
  shows "\<exists>mn mx bins density count_y.
           (case min_arg of None \<Rightarrow> np_nanmin data | Some m \<Rightarrow> Inr m) = Inr mn
         \<and> (case max_arg of None \<Rightarrow> np_nanmax data | Some m \<Rightarrow> Inr m) = Inr mx
         \<and> linspace mn mx npoints = Inr bins
         \<and> np_histogram_density data bins = Inr (density, bins)
         \<and> gaussian_filter1d (map (\<lambda>v. fl_mul v (Fin (real (length data)))) density) sigma
             = Inr count_y
         \<and> smooth_data npoints sigma data min_arg max_arg = Inr (drop 1 bins, count_y)
         \<and> length (drop 1 bins) = nat npoints - 1 \<and> length count_y = nat npoints - 1"
proof -
  have "\<exists>mn mx. (case min_arg of None \<Rightarrow> np_nanmin data | Some m \<Rightarrow> Inr m) = Inr mn
         \<and> (case max_arg of None \<Rightarrow> np_nanmax data | Some m \<Rightarrow> Inr m) = Inr mx
         \<and> ((mn = NaN \<and> mx = NaN) \<or> (\<exists>a b. mn = Fin a \<and> mx = Fin b \<and> a \<le> b))"
  proof (rule disjE[OF assms(3)])
    assume a: "min_arg = None \<and> max_arg = None \<and> data \<noteq> []
               \<and> (\<forall>v \<in> set data. is_fin v \<or> is_nan v)"
    then have "(np_nanmin data = Inr NaN \<and> np_nanmax data = Inr NaN)
       \<or> (\<exists>a b. np_nanmin data = Inr (Fin a) \<and> np_nanmax data = Inr (Fin b) \<and> a \<le> b)"
      by (intro np_nan_extent) simp_all
    then show ?thesis using a by auto
  next
    assume "\<exists>a b. min_arg = Some (Fin a) \<and> max_arg = Some (Fin b) \<and> a \<le> b"
    then show ?thesis by auto
  qed
  then obtain mn mx where m:
    "(case min_arg of None \<Rightarrow> np_nanmin data | Some m \<Rightarrow> Inr m) = Inr mn"
    "(case max_arg of None \<Rightarrow> np_nanmax data | Some m \<Rightarrow> Inr m) = Inr mx"
    "(mn = NaN \<and> mx = NaN) \<or> (\<exists>a b. mn = Fin a \<and> mx = Fin b \<and> a \<le> b)" by blast
  from smooth_data_from_extent[OF assms(1,2) m] m(1,2) show ?thesis by blast
qed

theorem smooth_data_shape_witness:
  "\<exists>bins density count_y.
       linspace (Fin 1) (Fin 3) 3 = Inr bins
     \<and> np_histogram_density [Fin 1, Fin 2, Fin 2, Fin 3] bins = Inr (density, bins)
     \<and> gaussian_filter1d (map (\<lambda>v. fl_mul v (Fin (real (length [Fin 1, Fin 2, Fin 2, Fin 3]))))
          density) 5 = Inr count_y
     \<and> smooth_data 3 5 [Fin 1, Fin 2, Fin 2, Fin 3] None None = Inr (drop 1 bins, count_y)
     \<and> length (drop 1 bins) = 2 \<and> length count_y = 2"
proof -
  have h1: "(2::int) \<le> 3" and h2: "(0::real) < 5" by simp_all
  have h3: "((None::fl option) = None \<and> (None::fl option) = None
             \<and> [Fin 1, Fin 2, Fin 2, Fin 3] \<noteq> []
             \<and> (\<forall>v \<in> set [Fin 1, Fin 2, Fin 2, Fin 3]. is_fin v \<or> is_nan v))
       \<or> (\<exists>a b. (None::fl option) = Some (Fin a) \<and> (None::fl option) = Some (Fin b) \<and> a \<le> b)"
    by simp
  have mn: "np_nanmin [Fin 1, Fin 2, Fin 2, Fin 3] = Inr (Fin 1)"
    and mx: "np_nanmax [Fin 1, Fin 2, Fin 2, Fin 3] = Inr (Fin 3)"
    by (simp_all add: np_nanmin_def np_nanmax_def dropna_def np_minimum_def np_maximum_def)
  have n: "nat 3 - 1 = 2" by simp
  from smooth_data_shape[OF h1 h2 h3] show ?thesis
    unfolding n by (simp add: mn mx)
qed

text \<open>
  On the empty sample vector with the default range, \<^verbatim>\<open>np.nanmin\<close> raises
  \<^verbatim>\<open>ValueError\<close> and nothing is returned.
\<close>

theorem smooth_data_empty_counterexample:
  "smooth_data 10000 5 [] None None = Inl ValueError
   \<and> np_nanmin [] = Inl ValueError"
  by (simp add: smooth_data_def np_nanmin_def)

section \<open>Resampler\<close>

text \<open>
  C8 (amended). For a non-empty input vector and a requested count \<open>P \<ge> 0\<close>, whatever
  in-range indices the seeded generator draws, the scalar mode returns a vector of
  length \<open>P\<close> whose entries come from the input and which never decreases: it is sorted
  in numpy's order, NaNs last, and non-decreasing under \<open>\<le>\<close> when the input has no NaN.
\<close>

theorem resampler_scalar_sorted:
  assumes "V \<noteq> []" and "0 \<le> P"
    and "length (rng (length V) (nat P)) = nat P"
    and "\<forall>i \<in> set (rng (length V) (nat P)). i < length V"
  shows "\<exists>out. interpolate rng interp1d V P None = Inr (Resampled out)
           \<and> length out = nat P
           \<and> sorted_wrt (\<lambda>a b. \<not> fl_lt b a) out
           \<and> sorted (map np_key out)
           \<and> set out \<subseteq> set V
           \<and> ((\<forall>v \<in> set V. \<not> is_nan v) \<longrightarrow> sorted_wrt fl_le out)"
proof -
  define indices where "indices = (if P = 0 then [] else rng (length V) (nat P))"
  have ri: "randint rng (int (length V)) P = Inr indices"
    using assms(1,2) by (auto simp: randint_def indices_def)
  have li: "length indices = nat P" using assms(3) by (simp add: indices_def)
  have inr: "\<forall>i \<in> set indices. i < length V" using assms(4) by (simp add: indices_def)
  define r where "r = map (\<lambda>i. V ! i) indices"
  have rs: "resample rng V P = Inr r"
    using inr by (simp add: resample_def ri safe_indexing_def r_def list_all_iff)
  have res: "interpolate rng interp1d V P None = Inr (Resampled (np_sort r))"
    by (simp add: interpolate_def rs)
  have sub: "set r \<subseteq> set V" using inr by (auto simp: r_def)
  have len: "length (np_sort r) = nat P" by (simp add: np_sort_props(1) r_def li)
  have nn: "(\<forall>v \<in> set V. \<not> is_nan v) \<longrightarrow> sorted_wrt fl_le (np_sort r)"
    using sub by (auto intro: np_sort_fl_le)
  show ?thesis
    using res len np_sort_props(4)[of r] np_sort_props(3)[of r] sub np_sort_props(2)[of r] nn
    by (intro exI[of _ "np_sort r"]) simp
qed

theorem resampler_scalar_sorted_witness:
  "interpolate (\<lambda>high size. [2, 0, 2, 1]) interp1d_nearest [Fin 5, NaN, Fin 3] 4 None
     = Inr (Resampled [Fin 3, Fin 3, Fin 5, NaN])
   \<and> (\<exists>out. interpolate (\<lambda>high size. [2, 0, 2, 1]) interp1d_nearest [Fin 5, NaN, Fin 3] 4 None
              = Inr (Resampled out) \<and> length out = 4 \<and> sorted (map np_key out))"
proof -
  have h1: "[Fin 5, NaN, Fin 3] \<noteq> []" and h2: "(0::int) \<le> 4" by simp_all
  have h3: "length ((\<lambda>high size. [2, 0, 2, 1::nat]) (length [Fin 5, NaN, Fin 3]) (nat 4)) = nat 4"
    by simp
  have h4: "\<forall>i \<in> set ((\<lambda>high size. [2, 0, 2, 1::nat]) (length [Fin 5, NaN, Fin 3]) (nat 4)).
              i < length [Fin 5, NaN, Fin 3]" by simp
  have e: "interpolate (\<lambda>high size. [2, 0, 2, 1]) interp1d_nearest [Fin 5, NaN, Fin 3] 4 None
     = Inr (Resampled [Fin 3, Fin 3, Fin 5, NaN])"
    by (simp add: interpolate_def resample_def randint_def safe_indexing_def np_sort_def)
  from resampler_scalar_sorted[OF h1 h2 h3 h4, of interp1d_nearest]
  obtain out where "interpolate (\<lambda>high size. [2, 0, 2, 1]) interp1d_nearest [Fin 5, NaN, Fin 3] 4 None
              = Inr (Resampled out)" "length out = nat 4" "sorted (map np_key out)" by blast
  then show ?thesis using e by simp
qed

text \<open>
  Nothing can be drawn from an empty vector: for \<open>P = 1\<close> the draw from the empty range
  raises \<^verbatim>\<open>ValueError\<close>.
\<close>

theorem resampler_scalar_empty_counterexample:
  "\<forall>rng interp1d. interpolate rng interp1d [] 1 None = Inl ValueError"
  by (simp add: interpolate_def resample_def randint_def)

text \<open>
  C9 (amended). For equal-length vectors \<open>X\<close> and \<open>Y\<close> of at least two entries, \<open>X\<close> finite
  and strictly monotonic, and a requested count \<open>P \<ge> 2\<close>, the paired mode with the
  nearest-neighbour kind returns \<open>P\<close> equally spaced points, the \<open>i\<close>-th at
  \<open>min(X) + i * (max(X) - min(X)) / (P - 1)\<close>, with a positive step, the first \<open>min(X)\<close>
  and the last \<open>max(X)\<close>, together with the interpolating function at these points: each
  value is the \<open>Y\<close> of an \<open>X\<close> nearest to its point.
\<close>

theorem resampler_paired_grid:
  assumes "length rs = length Y"
    and "sorted_wrt (\<lambda>a b. a < b) rs \<or> sorted_wrt (\<lambda>a b. b < a) rs"
    and "2 \<le> length rs" and "2 \<le> P"
  shows "\<exists>grid f y_int.
           interp1d_nearest (map Fin rs) Y = Inr f
         \<and> f (map Fin grid) = Inr y_int
         \<and> interpolate rng interp1d_nearest (map Fin rs) P (Some Y)
             = Inr (Paired (map Fin grid) y_int)
         \<and> length grid = nat P \<and> length y_int = nat P
         \<and> (\<forall>i < nat P. grid ! i
                = Min (set rs) + real i * (Max (set rs) - Min (set rs)) / real (nat P - 1))
         \<and> (\<forall>i. Suc i < nat P \<longrightarrow>
                grid ! Suc i - grid ! i = (Max (set rs) - Min (set rs)) / real (nat P - 1))
         \<and> 0 < (Max (set rs) - Min (set rs)) / real (nat P - 1)
         \<and> grid ! 0 = Min (set rs) \<and> grid ! (nat P - 1) = Max (set rs)
         \<and> (\<forall>i < nat P. \<exists>k < length rs. y_int ! i = Y ! k
                \<and> (\<forall>k' < length rs. \<bar>rs ! k - grid ! i\<bar> \<le> \<bar>rs ! k' - grid ! i\<bar>))"
proof -
  define a where "a = Min (set rs)"
  define b where "b = Max (set rs)"
  define n where "n = nat P"
  define grid where "grid = map (lin_edge a b n) [0..<n]"
  have "0 < length rs" using assms(3) by linarith
  then have rne: "rs \<noteq> []" by simp
  have n2: "2 \<le> n" using assms(4) by (simp add: n_def)
  have P0: "0 \<le> P" using assms(4) by simp
  have ab: "a < b" unfolding a_def b_def using assms(2,3) by (rule strictly_monotonic_extent)
  obtain f where f: "interp1d_nearest (map Fin rs) Y = Inr f"
    using interp1d_nearest_Fin[OF assms(1,3)] by blast
  have inb: "\<forall>g \<in> set grid. Min (set rs) \<le> g \<and> g \<le> Max (set rs)"
  proof
    fix g assume "g \<in> set grid"
    then obtain i where i: "i < n" "g = lin_edge a b n i" by (auto simp: grid_def)
    have "lin_edge a b n 0 \<le> lin_edge a b n i" using ab by (intro lin_edge_mono) simp_all
    moreover have "lin_edge a b n i \<le> lin_edge a b n (n - 1)"
      using ab i(1) by (intro lin_edge_mono) simp_all
    ultimately show "Min (set rs) \<le> g \<and> g \<le> Max (set rs)"
      using i(2) lin_edge_first[of a b n] lin_edge_last[OF n2, of a b]
      by (simp add: a_def b_def)
  qed
  from nearest_values[OF assms(1,3) f inb]
  obtain y_int where y: "f (map Fin grid) = Inr y_int" "length y_int = length grid"
    "\<forall>i < length grid. \<exists>k < length rs. y_int ! i = Y ! k
                 \<and> (\<forall>k' < length rs. \<bar>rs ! k - grid ! i\<bar> \<le> \<bar>rs ! k' - grid ! i\<bar>)"
    by blast
  have ls: "linspace (Fin a) (Fin b) P = Inr (map Fin grid)"
    using linspace_Fin[OF P0, of a b] by (simp add: grid_def n_def comp_def)
  have res: "interpolate rng interp1d_nearest (map Fin rs) P (Some Y)
             = Inr (Paired (map Fin grid) y_int)"
    using rne
    by (simp add: interpolate_def f py_min_Fin py_max_Fin ls y(1) a_def[symmetric]
        b_def[symmetric])
  have len: "length grid = n" by (simp add: grid_def)
  have pts: "\<forall>i < n. grid ! i = a + real i * (b - a) / real (n - 1)"
    by (simp add: grid_def lin_edge_def)
  have stp: "\<forall>i. Suc i < n \<longrightarrow> grid ! Suc i - grid ! i = (b - a) / real (n - 1)"
    by (simp add: grid_def lin_edge_step)
  have pos: "0 < (b - a) / real (n - 1)" using ab n2 by simp
  have fst: "grid ! 0 = a" using n2 by (simp add: grid_def lin_edge_first)
  have "grid ! (n - 1) = lin_edge a b n (n - 1)" using n2 by (simp add: grid_def)
  also have "\<dots> = b" using n2 by (rule lin_edge_last)
  finally have lst: "grid ! (n - 1) = b" .
  have near: "\<forall>i < n. \<exists>k < length rs. y_int ! i = Y ! k
                 \<and> (\<forall>k' < length rs. \<bar>rs ! k - grid ! i\<bar> \<le> \<bar>rs ! k' - grid ! i\<bar>)"
    using y(3) len by simp
  have ly: "length y_int = n" using y(2) len by simp
  show ?thesis
    unfolding a_def[symmetric] b_def[symmetric] n_def[symmetric]
    using f y(1) res len ly pts stp pos fst lst near
    by (intro exI[of _ grid] exI[of _ f] exI[of _ y_int] conjI) assumption+
qed

theorem resampler_paired_grid_witness:
  "interpolate (\<lambda>high sz. []) interp1d_nearest (map Fin [0, 1, 2]) 3
       (Some [Fin 10, Fin 20, Fin 30])
     = Inr (Paired [Fin 0, Fin 1, Fin 2] [Fin 10, Fin 20, Fin 30])
   \<and> interpolate (\<lambda>high sz. []) interp1d_nearest (map Fin [4, 2, 0]) 5
       (Some [Fin 10, Fin 20, Fin 30])
     = Inr (Paired [Fin 0, Fin 1, Fin 2, Fin 3, Fin 4]
                   [Fin 30, Fin 30, Fin 20, Fin 20, Fin 10])
   \<and> (\<exists>grid y_int. interpolate (\<lambda>high sz. []) interp1d_nearest (map Fin [0, 1, 2]) 3
                (Some [Fin 10, Fin 20, Fin 30]) = Inr (Paired (map Fin grid) y_int)
            \<and> length grid = 3 \<and> length y_int = 3 \<and> grid ! 0 = 0 \<and> grid ! 2 = 2)"
proof -
  have h1: "length [0, 1, 2::real] = length [Fin 10, Fin 20, Fin 30]" by simp
  have h2: "sorted_wrt (\<lambda>a b. a < b) [0, 1, 2::real] \<or> sorted_wrt (\<lambda>a b. b < a) [0, 1, 2::real]"
    by simp
  have h3: "2 \<le> length [0, 1, 2::real]" and h4: "(2::int) \<le> 3" by simp_all
  note t = resampler_paired_grid[where rs = "[0, 1, 2]" and P = 3
      and Y = "[Fin 10, Fin 20, Fin 30]" and rng = "\<lambda>high sz. []", OF h1 h2 h3 h4]
  from t obtain grid f y_int where full:
    "interp1d_nearest (map Fin [0, 1, 2]) [Fin 10, Fin 20, Fin 30] = Inr f
         \<and> f (map Fin grid) = Inr y_int
         \<and> interpolate (\<lambda>high sz. []) interp1d_nearest (map Fin [0, 1, 2]) 3
              (Some [Fin 10, Fin 20, Fin 30]) = Inr (Paired (map Fin grid) y_int)
         \<and> length grid = nat 3 \<and> length y_int = nat 3
         \<and> (\<forall>i < nat 3. grid ! i
                = Min (set [0, 1, 2]) + real i * (Max (set [0, 1, 2]) - Min (set [0, 1, 2]))
                    / real (nat 3 - 1))
         \<and> (\<forall>i. Suc i < nat 3 \<longrightarrow>
                grid ! Suc i - grid ! i
                  = (Max (set [0, 1, 2]) - Min (set [0, 1, 2])) / real (nat 3 - 1))
         \<and> 0 < (Max (set [0, 1, 2]) - Min (set [0, 1, 2])) / real (nat 3 - 1)
         \<and> grid ! 0 = Min (set [0, 1, 2]) \<and> grid ! (nat 3 - 1) = Max (set [0, 1, 2])
         \<and> (\<forall>i < nat 3. \<exists>k < length [0, 1, 2::real]. y_int ! i = [Fin 10, Fin 20, Fin 30] ! k
                \<and> (\<forall>k' < length [0, 1, 2::real].
                      \<bar>[0, 1, 2] ! k - grid ! i\<bar> \<le> \<bar>[0, 1, 2] ! k' - grid ! i\<bar>))"
    by (elim exE)
  have r: "interpolate (\<lambda>high sz. []) interp1d_nearest (map Fin [0, 1, 2]) 3
              (Some [Fin 10, Fin 20, Fin 30]) = Inr (Paired (map Fin grid) y_int)"
    "length grid = 3" "length y_int = 3" "grid ! 0 = 0" "grid ! 2 = 2"
    using full by simp_all
  have e1: "interpolate (\<lambda>high sz. []) interp1d_nearest (map Fin [0, 1, 2]) 3
       (Some [Fin 10, Fin 20, Fin 30])
     = Inr (Paired [Fin 0, Fin 1, Fin 2] [Fin 10, Fin 20, Fin 30])"
    by (simp add: interpolate_def interp1d_nearest_def Let_def searchsorted_left_def np_less_def
        py_min2_def py_max2_def linspace_def fl_sub_def upt_conv_Cons)
  have e2: "interpolate (\<lambda>high sz. []) interp1d_nearest (map Fin [4, 2, 0]) 5
       (Some [Fin 10, Fin 20, Fin 30])
     = Inr (Paired [Fin 0, Fin 1, Fin 2, Fin 3, Fin 4]
                   [Fin 30, Fin 30, Fin 20, Fin 20, Fin 10])"
    by (simp add: interpolate_def interp1d_nearest_def Let_def searchsorted_left_def np_less_def
        py_min2_def py_max2_def linspace_def fl_sub_def upt_conv_Cons)
  have ex: "\<exists>grid y_int. interpolate (\<lambda>high sz. []) interp1d_nearest (map Fin [0, 1, 2]) 3
                (Some [Fin 10, Fin 20, Fin 30]) = Inr (Paired (map Fin grid) y_int)
            \<and> length grid = 3 \<and> length y_int = 3 \<and> grid ! 0 = 0 \<and> grid ! 2 = 2"
    using r by (intro exI[of _ grid] exI[of _ y_int] conjI) assumption+
  show ?thesis using e1 e2 ex by (intro conjI)
qed

text \<open>
  A single requested point is \<open>min(X)\<close> alone and does not reach \<open>max(X)\<close>; a negative
  count makes \<^verbatim>\<open>np.linspace\<close> raise \<^verbatim>\<open>ValueError\<close>.
\<close>

theorem resampler_paired_count_counterexample:
  "interpolate (\<lambda>high sz. []) interp1d_nearest [Fin 0, Fin 1, Fin 2] 1
       (Some [Fin 10, Fin 20, Fin 30]) = Inr (Paired [Fin 0] [Fin 10])
   \<and> py_max [Fin 0, Fin 1, Fin 2] = Inr (Fin 2)
   \<and> interpolate (\<lambda>high sz. []) interp1d_nearest [Fin 0, Fin 1, Fin 2] (- 1)
       (Some [Fin 10, Fin 20, Fin 30]) = Inl ValueError"
  by (simp add: interpolate_def interp1d_nearest_def Let_def searchsorted_left_def np_less_def
      py_min2_def py_max2_def linspace_def fl_sub_def)

end
